theory Spec2Isabelle
  imports Main "HOL-Library.AList" "HOL-Library.Sublist"
begin

section \<open>JavaScript values\<close>

text \<open>
  Strings are byte lists. A property that may be absent (or that the source coerces to
  \<open>null\<close> when it is not a string) is a \<open>string option\<close>. JavaScript's truthiness of
  such a value: \<open>undefined\<close>, \<open>null\<close> and the empty string are falsy.
\<close>

definition truthy :: "string option \<Rightarrow> bool" where
  "truthy v = (case v of None \<Rightarrow> False | Some x \<Rightarrow> x \<noteq> [])"

text \<open>\<open>a || b\<close> on optional strings.\<close>

definition or_else :: "string option \<Rightarrow> string option \<Rightarrow> string option" where
  "or_else a b = (if truthy a then a else b)"

text \<open>
  \<open>String.prototype.toLowerCase\<close>. On the ASCII letters it is the table below; every
  phrase the source compares against is made of ASCII letters and spaces other than \<open>k\<close>,
  so the bytes of other characters never take part in a match.
\<close>

definition lower_char :: "char \<Rightarrow> char" where
  "lower_char c =
     (case map_of (zip ''ABCDEFGHIJKLMNOPQRSTUVWXYZ'' ''abcdefghijklmnopqrstuvwxyz'') c of
        None \<Rightarrow> c
      | Some d \<Rightarrow> d)"

definition toLowerCase :: "string \<Rightarrow> string" where
  "toLowerCase x = map lower_char x"

text \<open>\<open>hay.includes(needle)\<close>: the needle is a contiguous part of the hay.\<close>

fun str_includes :: "string \<Rightarrow> string \<Rightarrow> bool" where
  "str_includes [] needle = (needle = [])"
| "str_includes (c # cs) needle = (prefix needle (c # cs) \<or> str_includes cs needle)"

text \<open>Decimal rendering of an integer inside a template string.\<close>

definition digit_char :: "nat \<Rightarrow> char" where
  "digit_char d = ''0123456789'' ! d"

fun show_nat :: "nat \<Rightarrow> string" where
  "show_nat n = (if n < 10 then [digit_char n] else show_nat (n div 10) @ [digit_char (n mod 10)])"

definition show_int :: "int \<Rightarrow> string" where
  "show_int i = (if i < 0 then CHR ''-'' # show_nat (nat (- i)) else show_nat (nat i))"

text \<open>An absent value inside a template string prints as \<open>undefined\<close>.\<close>

definition template :: "string option \<Rightarrow> string" where
  "template v = (case v of None \<Rightarrow> ''undefined'' | Some x \<Rightarrow> x)"

fun join :: "string \<Rightarrow> string list \<Rightarrow> string" where
  "join sep [] = []"
| "join sep [x] = x"
| "join sep (x # y # ys) = x @ sep @ join sep (y # ys)"

section \<open>Agent events (the input of the event processor)\<close>

text \<open>
  An error value is typed \<open>unknown\<close> in the source. \<open>None\<close> stands for every falsy value;
  \<open>ErrOther x\<close> is a truthy number, boolean, bigint or symbol, with
  \<open>String(error) = x\<close>. The fields of \<open>ErrObject\<close> are \<open>name\<close>, \<open>message\<close> and
  \<open>data.message\<close>, each \<open>None\<close> when it is not a string.
\<close>

datatype oc_error =
    ErrString string
  | ErrObject (err_name: "string option") (err_message: "string option") (err_dataMessage: "string option")
  | ErrOther string

record message_info =
  info_id :: "string option"
  info_role :: "string option"
  info_sessionID :: "string option"
  info_sessionId :: "string option"
  info_error :: "oc_error option"
  info_time_completed :: "int option"

record summary_item_state =
  sis_status :: "string option"
  sis_title :: "string option"

record summary_item =
  item_id :: "string option"
  item_tool :: "string option"
  item_state :: "summary_item_state option"

record tool_metadata =
  summary :: "summary_item list option"

record part_state =
  ps_status :: "string option"
  ps_input :: "(string \<times> string) list option"
  ps_output :: "string option"
  ps_error :: "string option"
  ps_title :: "string option"
  ps_metadata :: "tool_metadata option"

record part =
  part_id :: "string option"
  part_messageID :: "string option"
  part_type :: "string option"
  part_sessionID :: "string option"
  part_callID :: "string option"
  part_tool :: "string option"
  part_text :: "string option"
  part_state :: "part_state option"

record part_update_properties =
  pup_part :: "part option"
  pup_delta :: "string option"

text \<open>
  An event is its \<open>type\<close> with its \<open>properties\<close>; the outer \<open>option\<close> is \<open>None\<close> when the
  event has no \<open>properties\<close>. For \<open>message.updated\<close> the inner value is
  \<open>properties.info\<close>, for \<open>session.status\<close> it is \<open>properties.status?.type\<close>, for
  \<open>session.error\<close> it is \<open>properties.error\<close>.
\<close>

datatype event =
    ServerConnected
  | ServerHeartbeat
  | MessageUpdated "message_info option option"
  | MessagePartUpdated "part_update_properties option"
  | SessionIdle
  | SessionStatus "string option option"
  | SessionError "oc_error option option"
  | OtherEvent string

section \<open>Client messages (the output of the event processor)\<close>

text \<open>
  The payloads, in the order of the source's object literals. A field that the source
  copies from the event or from the processor's state without checking it is a
  \<open>string option\<close>, as it is there.
  \<^item> \<open>Message id createdAt\<close> (role assistant, empty content, not complete)
  \<^item> \<open>Token messageId partId token\<close>
  \<^item> \<open>TextPartComplete messageId partId text\<close>
  \<^item> \<open>ToolStart messageId partId toolCallId tool args\<close>
  \<^item> \<open>ToolMetadata toolCallId tool title metadata\<close>
  \<^item> \<open>ToolEnd partId toolCallId tool result durationMs\<close>
  \<^item> \<open>MessageComplete messageId\<close>
  \<^item> \<open>Error message\<close>
  \<^item> \<open>Status status message\<close>
\<close>

datatype server_message =
    Message "string option" int
  | Token "string option" "string option" "string option"
  | TextPartComplete "string option" "string option" "string option"
  | ToolStart "string option" "string option" string string "(string \<times> string) list"
  | ToolMetadata string string "string option" tool_metadata
  | ToolEnd "string option" string string string int
  | MessageComplete "string option"
  | Error string
  | Status string string

datatype exn = TypeError

datatype effect = Broadcast server_message | LogError exn

section \<open>State of the event processor\<close>

datatype tool_status = Running | Completed | Errored

record tool_state =
  startEmitted :: bool
  argsEmitted :: bool
  endEmitted :: bool
  status :: tool_status

record watch =
  toolName :: string
  startedAt :: int
  lastUpdateAt :: int
  lastStatusBroadcastAt :: int

record ep_state =
  currentAssistantMessageId :: "string option"
  currentOpenCodeUserMessageId :: "string option"
  toolStates :: "(string \<times> tool_state) list"
  runningToolWatch :: "(string \<times> watch) list"
  sentToolEvents :: "string set"

text \<open>
  What one call of \<open>process\<close> reads from outside the processor: the three readings of
  \<open>Date.now()\<close> (in the heartbeat, for \<open>createdAt\<close> of a new message, in the tool handler)
  and the answer of the callback \<open>getOpenCodeSessionId\<close>.
\<close>

record environment =
  now_heartbeat :: int
  now_createdAt :: int
  now_tool :: int
  getOpenCodeSessionId :: "string option"

definition initial_state :: ep_state where
  "initial_state =
     \<lparr> currentAssistantMessageId = None, currentOpenCodeUserMessageId = None,
       toolStates = [], runningToolWatch = [], sentToolEvents = {} \<rparr>"

section \<open>The event processor\<close>

text \<open>
  Every handler returns the new state, what it broadcast (in order) and the exception it
  threw, if any: an exception leaves the mutations and broadcasts made before it in place.
  The logger's debug, info and warn lines and the optional telemetry callbacks are not
  part of the model; the callbacks are taken to return normally.
\<close>

type_synonym outcome = "ep_state \<times> effect list \<times> exn option"

definition toolProgressHeartbeatMs :: int where
  "toolProgressHeartbeatMs = 15000"

definition getOpenCodeErrorMessage :: "oc_error option \<Rightarrow> string option" where
  "getOpenCodeErrorMessage error =
     (case error of
        None \<Rightarrow> None
      | Some (ErrString x) \<Rightarrow> (if x = [] then None else Some x)
      | Some (ErrOther x) \<Rightarrow> Some x
      | Some (ErrObject name message dataMessage) \<Rightarrow>
          (if truthy dataMessage then dataMessage
           else if truthy message then message
           else if truthy name then name
           else None))"

definition isAbortLikeOpenCodeError :: "oc_error option \<Rightarrow> bool" where
  "isAbortLikeOpenCodeError error =
     (case error of
        None \<Rightarrow> False
      | Some e \<Rightarrow>
          (if e = ErrString [] then False
           else
             let details =
                   (case e of
                      ErrString x \<Rightarrow> (None, Some x, None)
                    | ErrObject name message dataMessage \<Rightarrow> (name, message, dataMessage)
                    | ErrOther x \<Rightarrow> (None, Some x, None));
                 normalizedName = map_option toLowerCase (fst details)
             in
               if normalizedName = Some ''messageabortederror'' \<or> normalizedName = Some ''aborterror''
               then True
               else
                 let messages =
                       map toLowerCase
                         (List.map_filter (\<lambda>v. v) [fst (snd details), snd (snd details)])
                 in list_ex
                      (\<lambda>message.
                         str_includes message ''operation was aborted'' \<or>
                         str_includes message ''signal is aborted'' \<or>
                         message = ''aborterror'')
                      messages))"

definition hasRunningTools :: "ep_state \<Rightarrow> bool" where
  "hasRunningTools s = list_ex (\<lambda>kv. status (snd kv) = Running) (toolStates s)"

definition resetForNewPrompt :: "ep_state \<Rightarrow> ep_state" where
  "resetForNewPrompt s =
     s\<lparr> currentAssistantMessageId := None,
        currentOpenCodeUserMessageId := None,
        toolStates := [],
        runningToolWatch := [],
        sentToolEvents := {} \<rparr>"

definition clearCurrentAssistantMessageId :: "ep_state \<Rightarrow> ep_state" where
  "clearCurrentAssistantMessageId s =
     s\<lparr> currentAssistantMessageId := None,
        toolStates := [],
        runningToolWatch := [],
        sentToolEvents := {} \<rparr>"

definition completeCurrentMessage :: "ep_state \<Rightarrow> ep_state \<times> effect list" where
  "completeCurrentMessage s =
     (if \<not> truthy (currentAssistantMessageId s) then (s, [])
      else if hasRunningTools s then (s, [])
      else
        let hadTools = (toolStates s \<noteq> []);
            out = [Broadcast (MessageComplete (currentAssistantMessageId s))];
            s1 = (if hadTools then s\<lparr> currentAssistantMessageId := None \<rparr> else s)
        in (s1\<lparr> toolStates := [], runningToolWatch := [], sentToolEvents := {} \<rparr>, out))"

text \<open>
  The block that the three handlers share, each with the message id of its event: if there
  is no current assistant message, this id becomes the current one and the \<open>message\<close> is
  broadcast.
\<close>

definition ensureAssistantMessage ::
  "environment \<Rightarrow> string option \<Rightarrow> ep_state \<Rightarrow> ep_state \<times> effect list" where
  "ensureAssistantMessage env messageId s =
     (if \<not> truthy (currentAssistantMessageId s)
      then (s\<lparr> currentAssistantMessageId := messageId \<rparr>,
            [Broadcast (Message messageId (now_createdAt env))])
      else (s, []))"

text \<open>
  The tracking of the echoed user message: the first message id offered after a reset is
  kept, later ones are not.
\<close>

definition trackUserMessage :: "string option \<Rightarrow> ep_state \<Rightarrow> ep_state" where
  "trackUserMessage messageId s =
     (if currentOpenCodeUserMessageId s = None
      then s\<lparr> currentOpenCodeUserMessageId := messageId \<rparr> else s)"

definition handleMessageUpdate ::
  "environment \<Rightarrow> message_info option option \<Rightarrow> ep_state \<Rightarrow> outcome" where
  "handleMessageUpdate env properties s =
     (case (case properties of None \<Rightarrow> None | Some info \<Rightarrow> info) of
        None \<Rightarrow> (s, [], None)
      | Some info \<Rightarrow>
          let messageId = info_id info; role = info_role info in
          if \<not> truthy messageId \<or> \<not> truthy role then (s, [], None)
          else
            let openCodeSessionId = getOpenCodeSessionId env;
                sessionId =
                  (case info_sessionID info of Some x \<Rightarrow> Some x | None \<Rightarrow> info_sessionId info)
            in
              if truthy openCodeSessionId \<and> truthy sessionId \<and> sessionId \<noteq> openCodeSessionId
              then (s, [], None)
              else if role = Some ''user'' then (trackUserMessage messageId s, [], None)
              else if role \<noteq> Some ''assistant'' then (s, [], None)
              else
                let (s1, out1) = ensureAssistantMessage env messageId s
                in
                  if currentAssistantMessageId s1 \<noteq> messageId then (s1, out1, None)
                  else
                    let out2 =
                          (case getOpenCodeErrorMessage (info_error info) of
                             None \<Rightarrow> []
                           | Some errorMessage \<Rightarrow>
                               if errorMessage = [] then []
                               else if isAbortLikeOpenCodeError (info_error info) then []
                               else [Broadcast (Error errorMessage)])
                    in
                      (case info_time_completed info of
                         None \<Rightarrow> (s1, out1 @ out2, None)
                       | Some completed \<Rightarrow>
                           if completed = 0 then (s1, out1 @ out2, None)
                           else
                             let (s2, out3) = completeCurrentMessage s1
                             in (s2, out1 @ out2 @ out3, None)))"

definition handleTextPart :: "environment \<Rightarrow> part \<Rightarrow> string option \<Rightarrow> ep_state \<Rightarrow> outcome" where
  "handleTextPart env part delta s =
     (let s0 = trackUserMessage (part_messageID part) s
      in
        if part_messageID part = currentOpenCodeUserMessageId s0 then (s0, [], None)
        else
          let (s1, out1) = ensureAssistantMessage env (part_messageID part) s0
          in
            if truthy delta then
              (s1, out1 @ [Broadcast (Token (currentAssistantMessageId s1) (part_id part) delta)],
               None)
            else if truthy (part_text part) then
              (s1, out1 @ [Broadcast (TextPartComplete (currentAssistantMessageId s1)
                                        (part_id part) (part_text part))],
               None)
            else (s1, out1, None))"

text \<open>
  The tool handler, in the three steps of the source: the \<open>tool_start\<close> broadcast on the first
  sighting of a part or of its arguments, the metadata summary, the completion.
\<close>

definition touchWatch :: "string \<Rightarrow> string \<Rightarrow> int \<Rightarrow> (string \<times> watch) list \<Rightarrow> (string \<times> watch) list" where
  "touchWatch toolCallId tool now ws =
     (case map_of ws toolCallId of
        None \<Rightarrow> ws
      | Some w \<Rightarrow> AList.update toolCallId (w\<lparr> lastUpdateAt := now, toolName := tool \<rparr>) ws)"

definition partArgs :: "part \<Rightarrow> (string \<times> string) list" where
  "partArgs part =
     (case part_state part of
        None \<Rightarrow> []
      | Some st \<Rightarrow> (case ps_input st of None \<Rightarrow> [] | Some input \<Rightarrow> input))"

definition partStatus :: "part \<Rightarrow> string option" where
  "partStatus part = (case part_state part of None \<Rightarrow> None | Some st \<Rightarrow> ps_status st)"

definition partTitle :: "part \<Rightarrow> string option" where
  "partTitle part = (case part_state part of None \<Rightarrow> None | Some st \<Rightarrow> ps_title st)"

definition startKey :: "part \<Rightarrow> string" where
  "startKey part = template (part_id part) @ '':start''"

definition argsKey :: "part \<Rightarrow> string" where
  "argsKey part = template (part_id part) @ '':args''"

definition endKey :: "part \<Rightarrow> string" where
  "endKey part = template (part_id part) @ '':end''"

definition toolStartStep :: "environment \<Rightarrow> part \<Rightarrow> string \<Rightarrow> string \<Rightarrow> ep_state \<Rightarrow> ep_state \<times> effect list" where
  "toolStartStep env part toolCallId tool s =
     (let args = partArgs part;
          hasArgs = (args \<noteq> []);
          now = now_tool env;
          payload =
            ToolStart
              (if truthy (currentAssistantMessageId s) then currentAssistantMessageId s else None)
              (part_id part) toolCallId tool args
      in
        if startKey part \<notin> sentToolEvents s then
          (s\<lparr> sentToolEvents :=
                 (if hasArgs then insert (argsKey part) (insert (startKey part) (sentToolEvents s))
                  else insert (startKey part) (sentToolEvents s)),
               toolStates :=
                 AList.update toolCallId
                   \<lparr> startEmitted = True, argsEmitted = hasArgs, endEmitted = False,
                     status = Running \<rparr>
                   (toolStates s),
               runningToolWatch :=
                 AList.update toolCallId
                   \<lparr> toolName = tool, startedAt = now, lastUpdateAt = now,
                     lastStatusBroadcastAt = 0 \<rparr>
                   (runningToolWatch s) \<rparr>,
           [Broadcast payload])
        else if hasArgs \<and> argsKey part \<notin> sentToolEvents s then
          (s\<lparr> sentToolEvents := insert (argsKey part) (sentToolEvents s),
               runningToolWatch := touchWatch toolCallId tool now (runningToolWatch s) \<rparr>,
           [Broadcast payload])
        else (s, []))"

definition summaryItemText :: "summary_item \<Rightarrow> summary_item_state \<Rightarrow> string" where
  "summaryItemText item st =
     template (item_id item) @ '':'' @ template (item_tool item) @ '':'' @
     template (sis_status st) @ '':'' @ (case sis_title st of None \<Rightarrow> [] | Some t \<Rightarrow> t)"

text \<open>
  The signature is computed only after the \<open>reduce\<close> over the items has read
  \<open>item.state.status\<close> of each of them, which throws a TypeError on an item without
  \<open>state\<close>: every item that reaches the signature has one.
\<close>

definition summarySignature :: "summary_item list \<Rightarrow> string" where
  "summarySignature items =
     join ''|'' (List.map_filter (\<lambda>item. map_option (summaryItemText item) (item_state item)) items)"

definition summaryKey :: "part \<Rightarrow> summary_item list \<Rightarrow> string" where
  "summaryKey part items =
     template (part_id part) @ '':summary:'' @
     (case partTitle part of None \<Rightarrow> [] | Some t \<Rightarrow> t) @ '':'' @ summarySignature items"

definition toolMetadataStep ::
  "environment \<Rightarrow> part \<Rightarrow> string \<Rightarrow> string \<Rightarrow> ep_state \<Rightarrow> outcome" where
  "toolMetadataStep env part toolCallId tool s =
     (case (case part_state part of None \<Rightarrow> None | Some st \<Rightarrow> ps_metadata st) of
        None \<Rightarrow> (s, [], None)
      | Some metadata \<Rightarrow>
          (case summary metadata of
             None \<Rightarrow> (s, [], None)
           | Some items \<Rightarrow>
               if list_ex (\<lambda>item. item_state item = None) items then (s, [], Some TypeError)
               else if summaryKey part items \<notin> sentToolEvents s then
                 (s\<lparr> sentToolEvents := insert (summaryKey part items) (sentToolEvents s),
                      runningToolWatch :=
                        touchWatch toolCallId tool (now_tool env) (runningToolWatch s) \<rparr>,
                  [Broadcast (ToolMetadata toolCallId tool (partTitle part) metadata)],
                  None)
               else (s, [], None)))"

definition toolResult :: "part \<Rightarrow> string" where
  "toolResult part =
     (case or_else
             (case part_state part of None \<Rightarrow> None | Some st \<Rightarrow> ps_output st)
             (case part_state part of None \<Rightarrow> None | Some st \<Rightarrow> ps_error st) of
        None \<Rightarrow> '' ''
      | Some r \<Rightarrow> (if r = [] then '' '' else r))"

definition toolCompletionStep :: "part \<Rightarrow> string \<Rightarrow> string \<Rightarrow> ep_state \<Rightarrow> ep_state \<times> effect list" where
  "toolCompletionStep part toolCallId tool s =
     (if partStatus part = Some ''completed'' \<or> partStatus part = Some ''error'' then
        (if endKey part \<notin> sentToolEvents s then
           (s\<lparr> sentToolEvents := insert (endKey part) (sentToolEvents s),
                toolStates :=
                  (case map_of (toolStates s) toolCallId of
                     None \<Rightarrow> toolStates s
                   | Some st \<Rightarrow>
                       AList.update toolCallId
                         (st\<lparr> status :=
                                (if partStatus part = Some ''completed'' then Completed else Errored),
                              endEmitted := True \<rparr>)
                         (toolStates s)),
                runningToolWatch := AList.delete toolCallId (runningToolWatch s) \<rparr>,
            [Broadcast (ToolEnd (part_id part) toolCallId tool (toolResult part) 0)])
         else (s, []))
      else (s, []))"

definition handleToolPart :: "environment \<Rightarrow> part \<Rightarrow> string \<Rightarrow> string \<Rightarrow> ep_state \<Rightarrow> outcome" where
  "handleToolPart env part toolCallId tool s =
     (let (s1, out1) = ensureAssistantMessage env (part_messageID part) s;
          (s2, out2) = toolStartStep env part toolCallId tool s1;
          (s3, out3, thrown) = toolMetadataStep env part toolCallId tool s2
      in
        case thrown of
          Some err \<Rightarrow> (s3, out1 @ out2 @ out3, Some err)
        | None \<Rightarrow>
            let (s4, out4) = toolCompletionStep part toolCallId tool s3
            in (s4, out1 @ out2 @ out3 @ out4, None))"

definition handlePartUpdate :: "environment \<Rightarrow> part_update_properties option \<Rightarrow> ep_state \<Rightarrow> outcome" where
  "handlePartUpdate env props s =
     (case props of
        None \<Rightarrow> (s, [], Some TypeError)
      | Some p \<Rightarrow>
          (case pup_part p of
             None \<Rightarrow> (s, [], None)
           | Some part \<Rightarrow>
               if \<not> truthy (part_id part) \<or> \<not> truthy (part_messageID part) \<or> \<not> truthy (part_type part)
               then (s, [], None)
               else if truthy (getOpenCodeSessionId env) \<and>
                       part_sessionID part \<noteq> getOpenCodeSessionId env
               then (s, [], None)
               else if part_type part = Some ''text'' then handleTextPart env part (pup_delta p) s
               else
                 (case (part_callID part, part_tool part) of
                    (Some callID, Some tool) \<Rightarrow>
                      if callID \<noteq> [] \<and> tool \<noteq> [] then handleToolPart env part callID tool s
                      else (s, [], None)
                  | _ \<Rightarrow> (s, [], None))))"

definition handleSessionIdle :: "ep_state \<Rightarrow> outcome" where
  "handleSessionIdle s = (let (s1, out) = completeCurrentMessage s in (s1, out, None))"

definition handleSessionStatus :: "string option option \<Rightarrow> ep_state \<Rightarrow> outcome" where
  "handleSessionStatus properties s =
     (case properties of
        None \<Rightarrow> (s, [], None)
      | Some statusType \<Rightarrow>
          if statusType = Some ''idle''
          then (let (s1, out) = completeCurrentMessage s in (s1, out, None))
          else (s, [], None))"

definition handleSessionError :: "oc_error option option \<Rightarrow> ep_state \<Rightarrow> outcome" where
  "handleSessionError properties s =
     (case properties of
        None \<Rightarrow> (s, [], None)
      | Some error \<Rightarrow>
          if isAbortLikeOpenCodeError error then (s, [], None)
          else
            let errorMessage =
                  (case error of
                     Some (ErrObject name message dataMessage) \<Rightarrow>
                       (case or_else dataMessage name of
                          None \<Rightarrow> ''Unknown error''
                        | Some m \<Rightarrow> (if m = [] then ''Unknown error'' else m))
                   | _ \<Rightarrow> ''Unknown error'')
            in (s, [Broadcast (Error errorMessage)], None))"

definition heartbeatMessage :: "int \<Rightarrow> watch \<Rightarrow> string" where
  "heartbeatMessage now w =
     (let elapsedSeconds = max 1 ((now - startedAt w) div 1000);
          quietSeconds = max 1 ((now - lastUpdateAt w) div 1000)
      in ''Working on '' @ toolName w @ '' ('' @ show_int elapsedSeconds @
         ''s elapsed, no update for '' @ show_int quietSeconds @ ''s)'')"

text \<open>The body of the heartbeat's loop, for one entry of the watch map.\<close>

definition heartbeatEntry :: "int \<Rightarrow> string \<times> watch \<Rightarrow> (string \<times> watch) \<times> effect list" where
  "heartbeatEntry now kw =
     (let w = snd kw;
          quietForMs = now - lastUpdateAt w;
          sinceLastHeartbeatMs = now - lastStatusBroadcastAt w
      in
        if quietForMs < toolProgressHeartbeatMs then (kw, [])
        else if sinceLastHeartbeatMs < toolProgressHeartbeatMs then (kw, [])
        else ((fst kw, w\<lparr> lastStatusBroadcastAt := now \<rparr>),
              [Broadcast (Status ''running'' (heartbeatMessage now w))]))"

fun heartbeatLoop :: "int \<Rightarrow> (string \<times> watch) list \<Rightarrow> (string \<times> watch) list \<times> effect list" where
  "heartbeatLoop now [] = ([], [])"
| "heartbeatLoop now (kw # rest) =
     (let (kw1, out1) = heartbeatEntry now kw;
          (rest1, out2) = heartbeatLoop now rest
      in (kw1 # rest1, out1 @ out2))"

definition maybeBroadcastToolProgressHeartbeat :: "int \<Rightarrow> ep_state \<Rightarrow> ep_state \<times> effect list" where
  "maybeBroadcastToolProgressHeartbeat now s =
     (if runningToolWatch s = [] then (s, [])
      else
        let (ws, out) = heartbeatLoop now (runningToolWatch s)
        in (s\<lparr> runningToolWatch := ws \<rparr>, out))"

text \<open>The \<open>try\<close> block of \<open>process\<close>, then \<open>process\<close> itself with its \<open>catch\<close>.\<close>

definition processTry :: "environment \<Rightarrow> event \<Rightarrow> ep_state \<Rightarrow> outcome" where
  "processTry env event s =
     (let (s1, out1) = maybeBroadcastToolProgressHeartbeat (now_heartbeat env) s;
          (s2, out2, thrown) =
            (case event of
               ServerConnected \<Rightarrow> (s1, [], None)
             | ServerHeartbeat \<Rightarrow> (s1, [], None)
             | MessageUpdated properties \<Rightarrow> handleMessageUpdate env properties s1
             | MessagePartUpdated properties \<Rightarrow> handlePartUpdate env properties s1
             | SessionIdle \<Rightarrow> handleSessionIdle s1
             | SessionStatus properties \<Rightarrow> handleSessionStatus properties s1
             | SessionError properties \<Rightarrow> handleSessionError properties s1
             | OtherEvent t \<Rightarrow> (s1, [], None))
      in (s2, out1 @ out2, thrown))"

definition process :: "environment \<Rightarrow> event \<Rightarrow> ep_state \<Rightarrow> outcome" where
  "process env event s =
     (let (s1, out, thrown) = processTry env event s
      in case thrown of
           None \<Rightarrow> (s1, out, None)
         | Some err \<Rightarrow> (s1, out @ [LogError err], None))"

text \<open>The calls an owner makes on the processor, and a sequence of them.\<close>

datatype call =
    Process environment event
  | ResetForNewPrompt
  | ClearCurrentAssistantMessageId

fun run :: "call list \<Rightarrow> ep_state \<Rightarrow> ep_state \<times> effect list" where
  "run [] s = (s, [])"
| "run (Process env event # rest) s =
     (let (s1, out1, thrown) = process env event s;
          (s2, out2) = run rest s1
      in (s2, out1 @ out2))"
| "run (ResetForNewPrompt # rest) s = run rest (resetForNewPrompt s)"
| "run (ClearCurrentAssistantMessageId # rest) s = run rest (clearCurrentAssistantMessageId s)"

section \<open>Observations on the broadcasts\<close>

definition countOf :: "('a \<Rightarrow> bool) \<Rightarrow> 'a list \<Rightarrow> nat" where
  "countOf P xs = length (filter P xs)"

fun isMessage :: "effect \<Rightarrow> bool" where
  "isMessage (Broadcast (Message i t)) = True"
| "isMessage e = False"

fun isMessageComplete :: "effect \<Rightarrow> bool" where
  "isMessageComplete (Broadcast (MessageComplete m)) = True"
| "isMessageComplete e = False"

fun isErrorBroadcast :: "effect \<Rightarrow> bool" where
  "isErrorBroadcast (Broadcast (Error m)) = True"
| "isErrorBroadcast e = False"

fun isStatus :: "effect \<Rightarrow> bool" where
  "isStatus (Broadcast (Status a b)) = True"
| "isStatus e = False"

fun isToolStart :: "effect \<Rightarrow> bool" where
  "isToolStart (Broadcast (ToolStart m p c t a)) = True"
| "isToolStart e = False"

fun isToolEnd :: "effect \<Rightarrow> bool" where
  "isToolEnd (Broadcast (ToolEnd p c t r d)) = True"
| "isToolEnd e = False"

fun isTextBroadcast :: "effect \<Rightarrow> bool" where
  "isTextBroadcast (Broadcast (Token m p t)) = True"
| "isTextBroadcast (Broadcast (TextPartComplete m p t)) = True"
| "isTextBroadcast e = False"

fun isBroadcast :: "effect \<Rightarrow> bool" where
  "isBroadcast (Broadcast m) = True"
| "isBroadcast e = False"

text \<open>A client-visible update of the tool call \<open>k\<close>: its \<open>tool_start\<close> or \<open>tool_metadata\<close>.\<close>

fun isToolUpdateOf :: "string \<Rightarrow> effect \<Rightarrow> bool" where
  "isToolUpdateOf k (Broadcast (ToolStart m p c t a)) = (c = k)"
| "isToolUpdateOf k (Broadcast (ToolMetadata c t ti md)) = (c = k)"
| "isToolUpdateOf k e = False"

text \<open>The broadcasts that carry an assistant-message id, and the ids an event carries.\<close>

fun carriesMessageId :: "string \<Rightarrow> effect \<Rightarrow> bool" where
  "carriesMessageId m (Broadcast (Message i t)) = (i = Some m)"
| "carriesMessageId m (Broadcast (Token i p t)) = (i = Some m)"
| "carriesMessageId m (Broadcast (TextPartComplete i p t)) = (i = Some m)"
| "carriesMessageId m (Broadcast (ToolStart i p c t a)) = (i = Some m)"
| "carriesMessageId m (Broadcast (MessageComplete i)) = (i = Some m)"
| "carriesMessageId m e = False"

fun eventMessageIds :: "event \<Rightarrow> string set" where
  "eventMessageIds (MessageUpdated (Some (Some info))) = set_option (info_id info)"
| "eventMessageIds (MessagePartUpdated (Some props)) =
     (case pup_part props of None \<Rightarrow> {} | Some p \<Rightarrow> set_option (part_messageID p))"
| "eventMessageIds e = {}"

fun callMessageIds :: "call \<Rightarrow> string set" where
  "callMessageIds (Process env event) = eventMessageIds event"
| "callMessageIds c = {}"

fun isProcess :: "call \<Rightarrow> bool" where
  "isProcess (Process env event) = True"
| "isProcess c = False"

definition isIdleEvent :: "event \<Rightarrow> bool" where
  "isIdleEvent event = (event = SessionIdle \<or> event = SessionStatus (Some (Some ''idle'')))"

fun isIdleCall :: "call \<Rightarrow> bool" where
  "isIdleCall (Process env event) = isIdleEvent event"
| "isIdleCall c = False"

text \<open>
  A \<open>message.part.updated\<close> event for the part \<open>p\<close>, and the parts that pass the checks of
  \<open>handlePartUpdate\<close> under the session id the callback answers: a tool part with its call id
  and tool name, a text part.
\<close>

definition partEvent :: "part \<Rightarrow> string option \<Rightarrow> event" where
  "partEvent p delta = MessagePartUpdated (Some \<lparr> pup_part = Some p, pup_delta = delta \<rparr>)"

definition passesPartChecks :: "environment \<Rightarrow> part \<Rightarrow> bool" where
  "passesPartChecks env p =
     (truthy (part_id p) \<and> truthy (part_messageID p) \<and> truthy (part_type p) \<and>
      (\<not> truthy (getOpenCodeSessionId env) \<or> part_sessionID p = getOpenCodeSessionId env))"

definition acceptedToolPart :: "environment \<Rightarrow> part \<Rightarrow> string \<Rightarrow> string \<Rightarrow> bool" where
  "acceptedToolPart env p callID tool =
     (passesPartChecks env p \<and> part_type p \<noteq> Some ''text'' \<and>
      part_callID p = Some callID \<and> callID \<noteq> [] \<and> part_tool p = Some tool \<and> tool \<noteq> [])"

definition acceptedTextPart :: "environment \<Rightarrow> part \<Rightarrow> bool" where
  "acceptedTextPart env p = (passesPartChecks env p \<and> part_type p = Some ''text'')"

definition isCompletion :: "part \<Rightarrow> bool" where
  "isCompletion p = (partStatus p = Some ''completed'' \<or> partStatus p = Some ''error'')"

text \<open>No item of the part's metadata summary lacks its \<open>state\<close>.\<close>

definition summaryReadable :: "part \<Rightarrow> bool" where
  "summaryReadable p =
     (case part_state p of
        None \<Rightarrow> True
      | Some st \<Rightarrow>
          (case ps_metadata st of
             None \<Rightarrow> True
           | Some md \<Rightarrow>
               (case summary md of
                  None \<Rightarrow> True
                | Some items \<Rightarrow> list_all (\<lambda>item. item_state item \<noteq> None) items)))"

text \<open>
  The tools that get a heartbeat from a call of the heartbeat at time \<open>now\<close>, and a clock
  that does not run backwards over a sequence of calls, starting from \<open>t\<close>.
\<close>

definition heartbeatDue :: "int \<Rightarrow> watch \<Rightarrow> bool" where
  "heartbeatDue now w =
     (\<not> now - lastUpdateAt w < toolProgressHeartbeatMs \<and>
      \<not> now - lastStatusBroadcastAt w < toolProgressHeartbeatMs)"

definition heartbeatTools :: "int \<Rightarrow> ep_state \<Rightarrow> string list" where
  "heartbeatTools now s = map fst (filter (\<lambda>kw. heartbeatDue now (snd kw)) (runningToolWatch s))"

text \<open>Every watch entry of the tool call \<open>k\<close> satisfies \<open>Q\<close>.\<close>

definition watchInv :: "(watch \<Rightarrow> bool) \<Rightarrow> string \<Rightarrow> ep_state \<Rightarrow> bool" where
  "watchInv Q k s = list_all (\<lambda>kw. fst kw \<noteq> k \<or> Q (snd kw)) (runningToolWatch s)"

fun clockFrom :: "int \<Rightarrow> call list \<Rightarrow> bool" where
  "clockFrom t [] = True"
| "clockFrom t (Process env event # rest) =
     (t \<le> now_heartbeat env \<and> now_heartbeat env \<le> now_tool env \<and> clockFrom (now_tool env) rest)"
| "clockFrom t (c # rest) = clockFrom t rest"

section \<open>The VPS sandbox provider\<close>

text \<open>
  A rejected promise is a value: the failure of the SSH connection or of a remote command,
  or a \<open>SandboxProviderError\<close>. The host is what the provider talks to: whether
  \<open>sshPool.getConnection\<close> connects, what \<open>ssh.execCommand\<close> answers to a command line, and the
  outcomes of the provider's own \<open>resolveTunnels\<close> and \<open>createSandbox\<close>, whose bodies (port
  parsing, container start-up) are not modelled. \<open>shellEscape\<close> is imported by the source from
  a module outside these files and is a parameter as well.
\<close>

datatype provider_error = ProviderError string

record exec_result =
  ssh_stdout :: string
  ssh_stderr :: string
  ssh_code :: "int option"

record tunnels =
  openCodeUrl :: string
  tunnelPreviewUrl :: string

record create_sandbox_opts =
  opts_sessionId :: string
  snapshotId :: "string option"
  currentSandboxId :: "string option"

record create_sandbox_result =
  created_sandboxId :: string
  created_tunnelUrl :: string
  created_previewUrl :: string
  created_expiresAt :: int

record ensure_sandbox_result =
  sandboxId :: string
  tunnelUrl :: string
  previewUrl :: string
  expiresAt :: "int option"
  recovered :: bool

record host =
  getConnection :: "provider_error option"
  sshExecCommand :: "string \<Rightarrow> provider_error + exec_result"
  resolveTunnels :: "string \<Rightarrow> provider_error + tunnels"
  createSandbox :: "create_sandbox_opts \<Rightarrow> provider_error + create_sandbox_result"
  shellEscape :: "string \<Rightarrow> string"

datatype provider_call =
    CallCheckSandboxes "string list"
  | CallResolveTunnels string
  | CallCreateSandbox create_sandbox_opts

definition isWhitespace :: "char \<Rightarrow> bool" where
  "isWhitespace c = (c \<in> set [CHR 0x09, CHR 0x0A, CHR 0x0B, CHR 0x0C, CHR 0x0D, CHR 0x20])"

definition trim :: "string \<Rightarrow> string" where
  "trim x = rev (dropWhile isWhitespace (rev (dropWhile isWhitespace x)))"

fun splitOn :: "char \<Rightarrow> string \<Rightarrow> string list" where
  "splitOn sep [] = [[]]"
| "splitOn sep (c # cs) =
     (if c = sep then [] # splitOn sep cs
      else (case splitOn sep cs of [] \<Rightarrow> [[c]] | x # xs \<Rightarrow> (c # x) # xs))"

definition dockerPsCommand :: string where
  \<open>dockerPsCommand = ''docker ps --filter "status=running" --format "{{.ID}}"''\<close>

definition checkSandboxes :: "host \<Rightarrow> string list \<Rightarrow> provider_error + string list" where
  "checkSandboxes h sandboxIds =
     (case getConnection h of
        Some err \<Rightarrow> Inl err
      | None \<Rightarrow>
          (case sshExecCommand h dockerPsCommand of
             Inl err \<Rightarrow> Inl err
           | Inr result \<Rightarrow>
               let runningIds = filter (\<lambda>x. x \<noteq> []) (splitOn (CHR 0x0A) (trim (ssh_stdout result)))
               in Inr (filter (\<lambda>id. list_ex (\<lambda>rid. prefix id rid) runningIds) sandboxIds)))"

text \<open>
  The last statement of \<open>ensureSandbox\<close>: \<open>createSandbox\<close> is awaited and its result is
  returned with \<open>recovered: false\<close> added. \<open>calls\<close> are the provider calls made before it.
\<close>

definition createAndReturn ::
  "host \<Rightarrow> create_sandbox_opts \<Rightarrow> provider_call list \<Rightarrow>
   provider_call list \<times> (provider_error + ensure_sandbox_result)" where
  "createAndReturn h opts calls =
     (calls @ [CallCreateSandbox opts],
      (case createSandbox h opts of
         Inl err \<Rightarrow> Inl err
       | Inr result \<Rightarrow>
           Inr \<lparr> sandboxId = created_sandboxId result,
                 tunnelUrl = created_tunnelUrl result,
                 previewUrl = created_previewUrl result,
                 expiresAt = Some (created_expiresAt result),
                 recovered = False \<rparr>))"

definition ensureSandbox ::
  "host \<Rightarrow> create_sandbox_opts \<Rightarrow> provider_call list \<times> (provider_error + ensure_sandbox_result)" where
  "ensureSandbox h opts =
     (let create = createAndReturn h opts
      in
        case currentSandboxId opts of
          None \<Rightarrow> create []
        | Some current \<Rightarrow>
            if current = [] then create []
            else
              (case checkSandboxes h [current] of
                 Inl err \<Rightarrow> ([CallCheckSandboxes [current]], Inl err)
               | Inr alive \<Rightarrow>
                   if length alive > 0 then
                     (case resolveTunnels h current of
                        Inl err \<Rightarrow>
                          ([CallCheckSandboxes [current], CallResolveTunnels current], Inl err)
                      | Inr tunnels \<Rightarrow>
                          ([CallCheckSandboxes [current], CallResolveTunnels current],
                           Inr \<lparr> sandboxId = current,
                                 tunnelUrl = openCodeUrl tunnels,
                                 previewUrl = tunnelPreviewUrl tunnels,
                                 expiresAt = None,
                                 recovered = True \<rparr>))
                   else create [CallCheckSandboxes [current]]))"

record exec_opts =
  opt_cwd :: "string option"
  opt_timeoutMs :: "int option"
  opt_env :: "(string \<times> string) list option"

record exec_command_result =
  result_stdout :: string
  result_stderr :: string
  exitCode :: int

text \<open>
  The command line of \<open>execCommand\<close>. \<open>timeoutMs\<close> is a whole number of milliseconds;
  the default is 30000 and the value 0 drops the \<open>timeout\<close> prefix.
\<close>

definition execCommandLine :: "host \<Rightarrow> string \<Rightarrow> string list \<Rightarrow> exec_opts option \<Rightarrow> string" where
  "execCommandLine h sandbox argv opts =
     (let given = (case opts of None \<Rightarrow> \<lparr> opt_cwd = None, opt_timeoutMs = None, opt_env = None \<rparr> | Some x \<Rightarrow> x);
          timeout = (case opt_timeoutMs given of None \<Rightarrow> 30000 | Some t \<Rightarrow> t);
          envVars =
            (case opt_env given of
               None \<Rightarrow> []
             | Some cmdEnv \<Rightarrow>
                 join '' '' (map (\<lambda>kv. shellEscape h (fst kv) @ ''='' @ shellEscape h (snd kv)) cmdEnv));
          cwdFlag = (if truthy (opt_cwd given) then ''cd '' @ template (opt_cwd given) @ '' && '' else []);
          timeoutFlag =
            (if timeout \<noteq> 0 then ''timeout '' @ show_int (- ((- timeout) div 1000)) @ ''s '' else []);
          cmd = join '' '' (map (shellEscape h) argv)
      in ''docker exec '' @ sandbox @ '' sh -c '' @ [CHR 0x27] @
         cwdFlag @ envVars @ '' '' @ timeoutFlag @ cmd @ [CHR 0x27])"

definition execCommand ::
  "host \<Rightarrow> string \<Rightarrow> string list \<Rightarrow> exec_opts option \<Rightarrow> provider_error + exec_command_result" where
  "execCommand h sandbox argv opts =
     (case getConnection h of
        Some err \<Rightarrow> Inl err
      | None \<Rightarrow>
          (case sshExecCommand h (execCommandLine h sandbox argv opts) of
             Inl err \<Rightarrow> Inl err
           | Inr result \<Rightarrow>
               Inr \<lparr> result_stdout = ssh_stdout result,
                     result_stderr = ssh_stderr result,
                     exitCode = (case ssh_code result of None \<Rightarrow> - 1 | Some c \<Rightarrow> c) \<rparr>))"

text \<open>
  A \<open>message.updated\<close> event for the message \<open>info\<close>, and the checks of
  \<open>handleMessageUpdate\<close>: the message has an id and a role, and it is not of another session.
\<close>

definition messageEvent :: "message_info \<Rightarrow> event" where
  "messageEvent info = MessageUpdated (Some (Some info))"

definition passesMessageChecks :: "environment \<Rightarrow> message_info \<Rightarrow> bool" where
  "passesMessageChecks env info =
     (truthy (info_id info) \<and> truthy (info_role info) \<and>
      \<not> (truthy (getOpenCodeSessionId env) \<and>
         truthy (case info_sessionID info of Some x \<Rightarrow> Some x | None \<Rightarrow> info_sessionId info) \<and>
         (case info_sessionID info of Some x \<Rightarrow> Some x | None \<Rightarrow> info_sessionId info) \<noteq>
           getOpenCodeSessionId env))"

text \<open>
  The message id that an event offers as the id of the echoed user message: the id of an
  accepted \<open>message.updated\<close> of role \<open>user\<close>, the message id of an accepted text part.
\<close>

fun offeredUserMessage :: "environment \<Rightarrow> event \<Rightarrow> string option" where
  "offeredUserMessage env (MessageUpdated (Some (Some info))) =
     (if passesMessageChecks env info \<and> info_role info = Some ''user'' then info_id info else None)"
| "offeredUserMessage env (MessagePartUpdated (Some props)) =
     (case pup_part props of
        None \<Rightarrow> None
      | Some p \<Rightarrow> if acceptedTextPart env p then part_messageID p else None)"
| "offeredUserMessage env event = None"

text \<open>
  The message id of an event, and the events that announce an assistant message to a
  processor in state \<open>s\<close>: an accepted \<open>message.updated\<close> of role \<open>assistant\<close>, an accepted tool
  part, and an accepted text part of a message other than the user message, which is the
  tracked one, or the message of this very part when none is tracked yet.
\<close>

fun eventMessageId :: "event \<Rightarrow> string option" where
  "eventMessageId (MessageUpdated (Some (Some info))) = info_id info"
| "eventMessageId (MessagePartUpdated (Some props)) =
     (case pup_part props of None \<Rightarrow> None | Some p \<Rightarrow> part_messageID p)"
| "eventMessageId event = None"

fun announcesAssistantMessage :: "environment \<Rightarrow> ep_state \<Rightarrow> event \<Rightarrow> bool" where
  "announcesAssistantMessage env s (MessageUpdated (Some (Some info))) =
     (passesMessageChecks env info \<and> info_role info = Some ''assistant'')"
| "announcesAssistantMessage env s (MessagePartUpdated (Some props)) =
     (case pup_part props of
        None \<Rightarrow> False
      | Some p \<Rightarrow>
          passesPartChecks env p \<and>
          (if part_type p = Some ''text''
           then currentOpenCodeUserMessageId s \<noteq> None \<and>
                part_messageID p \<noteq> currentOpenCodeUserMessageId s
           else truthy (part_callID p) \<and> truthy (part_tool p)))"
| "announcesAssistantMessage env s event = False"

section \<open>Example inputs\<close>

definition envAt :: "int \<Rightarrow> environment" where
  "envAt t = \<lparr> now_heartbeat = t, now_createdAt = t, now_tool = t,
               getOpenCodeSessionId = Some ''ses_1'' \<rparr>"

definition exampleToolPart :: "string \<Rightarrow> part" where
  "exampleToolPart st =
     \<lparr> part_id = Some ''prt_1'', part_messageID = Some ''msg_2'', part_type = Some ''tool'',
       part_sessionID = Some ''ses_1'', part_callID = Some ''call_1'', part_tool = Some ''bash'',
       part_text = None,
       part_state = Some \<lparr> ps_status = Some st, ps_input = Some [(''command'', ''ls'')],
                            ps_output = None, ps_error = None, ps_title = None,
                            ps_metadata = None \<rparr> \<rparr>"

definition exampleTextPart :: "string \<Rightarrow> string \<Rightarrow> part" where
  "exampleTextPart messageID text =
     \<lparr> part_id = Some ''prt_0'', part_messageID = Some messageID, part_type = Some ''text'',
       part_sessionID = Some ''ses_1'', part_callID = None, part_tool = None,
       part_text = Some text, part_state = None \<rparr>"

definition exampleInfo :: "string \<Rightarrow> string \<Rightarrow> message_info" where
  "exampleInfo messageID role =
     \<lparr> info_id = Some messageID, info_role = Some role, info_sessionID = Some ''ses_1'',
       info_sessionId = None, info_error = None, info_time_completed = None \<rparr>"

definition exampleTurnStart :: "call list" where
  "exampleTurnStart =
     [Process (envAt 0) (MessageUpdated (Some (Some (exampleInfo ''msg_2'' ''assistant'')))),
      Process (envAt 1) (partEvent (exampleToolPart ''running'') None)]"

definition exampleTurn :: "call list" where
  "exampleTurn =
     [Process (envAt 0) (messageEvent (exampleInfo ''msg_1'' ''user'')),
      Process (envAt 1) (partEvent (exampleTextPart ''msg_1'' ''list the files'') None),
      Process (envAt 2) (messageEvent (exampleInfo ''msg_2'' ''assistant'')),
      Process (envAt 3) (partEvent (exampleTextPart ''msg_2'' ''I will'') (Some ''I will'')),
      Process (envAt 4) (partEvent (exampleToolPart ''running'') None)]"

definition exampleNextTurn :: "call list" where
  "exampleNextTurn =
     [Process (envAt 60) (messageEvent (exampleInfo ''msg_3'' ''user'')),
      Process (envAt 61) (partEvent (exampleTextPart ''msg_3'' ''and now?'') None),
      Process (envAt 62) (messageEvent (exampleInfo ''msg_4'' ''assistant'')),
      Process (envAt 63) (partEvent (exampleTextPart ''msg_4'' ''Done'') (Some ''Done'')),
      Process (envAt 64) SessionIdle]"

definition exampleHost :: "string \<Rightarrow> int option \<Rightarrow> host" where
  "exampleHost out c =
     \<lparr> getConnection = None,
       sshExecCommand = (\<lambda>cmd. Inr \<lparr> ssh_stdout = out, ssh_stderr = ''warn'', ssh_code = c \<rparr>),
       resolveTunnels =
         (\<lambda>i. Inr \<lparr> openCodeUrl = ''http://vps:32768'', tunnelPreviewUrl = ''http://vps:32769'' \<rparr>),
       createSandbox =
         (\<lambda>opts. Inr \<lparr> created_sandboxId = ''fedcba'', created_tunnelUrl = ''http://vps:40000'',
                        created_previewUrl = ''http://vps:40001'',
                        created_expiresAt = 3600000 \<rparr>),
       shellEscape = (\<lambda>x. x) \<rparr>"

definition exampleOpts :: "string option \<Rightarrow> create_sandbox_opts" where
  "exampleOpts current = \<lparr> opts_sessionId = ''s1'', snapshotId = None, currentSandboxId = current \<rparr>"

definition dockerPsOutput :: string where
  "dockerPsOutput = ''abc123def'' @ [CHR 0x0A] @ ''0123456'' @ [CHR 0x0A]"

section \<open>Basic facts\<close>

lemma countOf_simps [simp]:
  "countOf P [] = 0"
  "countOf P (x # xs) = (if P x then 1 else 0) + countOf P xs"
  "countOf P (xs @ ys) = countOf P xs + countOf P ys"
  by (simp_all add: countOf_def)

text \<open>The definitions that evaluate a call of the processor on concrete inputs.\<close>

lemmas eval_defs =
  process_def processTry_def maybeBroadcastToolProgressHeartbeat_def heartbeatEntry_def
  heartbeatMessage_def toolProgressHeartbeatMs_def handlePartUpdate_def handleToolPart_def
  handleTextPart_def handleMessageUpdate_def handleSessionIdle_def handleSessionStatus_def
  handleSessionError_def completeCurrentMessage_def hasRunningTools_def toolStartStep_def
  ensureAssistantMessage_def trackUserMessage_def
  toolMetadataStep_def toolCompletionStep_def touchWatch_def partArgs_def partStatus_def
  partTitle_def startKey_def argsKey_def endKey_def summaryKey_def toolResult_def or_else_def
  truthy_def template_def initial_state_def resetForNewPrompt_def
  clearCurrentAssistantMessageId_def partEvent_def envAt_def exampleToolPart_def
  exampleTextPart_def exampleInfo_def getOpenCodeErrorMessage_def Let_def

subsection \<open>The heartbeat\<close>

lemma heartbeatEntry_cases:
  "heartbeatEntry now kw = (kw, []) \<or>
   heartbeatEntry now kw =
     ((fst kw, (snd kw)\<lparr> lastStatusBroadcastAt := now \<rparr>),
      [Broadcast (Status ''running'' (heartbeatMessage now (snd kw)))])"
  by (simp add: heartbeatEntry_def Let_def)

lemma heartbeatLoop_status: "list_all isStatus (snd (heartbeatLoop now ws))"
proof (induction ws)
  case Nil
  show ?case by simp
next
  case (Cons kw ws)
  from heartbeatEntry_cases[of now kw] Cons show ?case
    by (auto simp: Let_def split: prod.splits)
qed

lemma heartbeat_fields:
  assumes "maybeBroadcastToolProgressHeartbeat now s = (s', out)"
  shows "currentAssistantMessageId s' = currentAssistantMessageId s"
    and "currentOpenCodeUserMessageId s' = currentOpenCodeUserMessageId s"
    and "toolStates s' = toolStates s"
    and "sentToolEvents s' = sentToolEvents s"
    and "list_all isStatus out"
  using assms heartbeatLoop_status[of now "runningToolWatch s"]
  by (auto simp: maybeBroadcastToolProgressHeartbeat_def Let_def split: if_splits prod.splits)

lemma heartbeat_idle: "runningToolWatch s = [] \<Longrightarrow> maybeBroadcastToolProgressHeartbeat now s = (s, [])"
  by (simp add: maybeBroadcastToolProgressHeartbeat_def)

lemma status_counts:
  assumes "list_all isStatus out"
  shows "countOf isErrorBroadcast out = 0"
    and "countOf isMessageComplete out = 0"
    and "countOf isMessage out = 0"
    and "countOf isToolStart out = 0"
    and "countOf isToolEnd out = 0"
    and "countOf isTextBroadcast out = 0"
    and "countOf (isToolUpdateOf k) out = 0"
    and "countOf (carriesMessageId m) out = 0"
  using assms by (induction out; auto elim: isStatus.elims)+

subsection \<open>The provider\<close>

text \<open>
  C8. \<open>execCommand\<close> resolves to the record of stdout, stderr and exit code for every exit
  code of the executed command, zero or not, and maps a missing exit code to -1: whenever the
  SSH connection is there and the remote command line was run with result \<open>r\<close>.
\<close>

theorem execCommand_returns_exit_code:
  "getConnection h = None \<Longrightarrow>
   sshExecCommand h (execCommandLine h sandbox argv opts) = Inr r \<Longrightarrow>
   execCommand h sandbox argv opts =
     Inr \<lparr> result_stdout = ssh_stdout r, result_stderr = ssh_stderr r,
           exitCode = (case ssh_code r of None \<Rightarrow> - 1 | Some c \<Rightarrow> c) \<rparr>"
  by (simp add: execCommand_def)

theorem execCommand_returns_exit_code_witness:
  "execCommand (exampleHost ''out'' (Some 2)) ''abc123'' [''false''] None =
     Inr \<lparr> result_stdout = ''out'', result_stderr = ''warn'', exitCode = 2 \<rparr> \<and>
   execCommand (exampleHost ''out'' None) ''abc123'' [''false''] None =
     Inr \<lparr> result_stdout = ''out'', result_stderr = ''warn'', exitCode = - 1 \<rparr>"
  using execCommand_returns_exit_code
          [of "exampleHost ''out'' (Some 2)" "''abc123''" "[''false'']" None
              "\<lparr> ssh_stdout = ''out'', ssh_stderr = ''warn'', ssh_code = Some 2 \<rparr>"]
        execCommand_returns_exit_code
          [of "exampleHost ''out'' None" "''abc123''" "[''false'']" None
              "\<lparr> ssh_stdout = ''out'', ssh_stderr = ''warn'', ssh_code = None \<rparr>"]
  by (simp add: exampleHost_def)

lemma checkSandboxes_example_alive:
  "checkSandboxes (exampleHost dockerPsOutput (Some 0)) [''abc123''] = Inr [''abc123'']"
  by (simp add: checkSandboxes_def exampleHost_def dockerPsOutput_def trim_def isWhitespace_def)

lemma checkSandboxes_example_dead:
  "checkSandboxes (exampleHost dockerPsOutput (Some 0)) [''777''] = Inr []"
  by (simp add: checkSandboxes_def exampleHost_def dockerPsOutput_def trim_def isWhitespace_def)

lemma ensureSandbox_probe_fails:
  "currentSandboxId opts = Some current \<Longrightarrow> current \<noteq> [] \<Longrightarrow>
   checkSandboxes h [current] = Inl err \<Longrightarrow>
   ensureSandbox h opts = ([CallCheckSandboxes [current]], Inl err)"
  by (simp add: ensureSandbox_def)

theorem ensureSandbox_recovers_or_creates:
  "(currentSandboxId opts = Some current \<and> current \<noteq> [] \<and>
    checkSandboxes h [current] = Inr alive \<and> alive \<noteq> [] \<and> resolveTunnels h current = Inr t \<longrightarrow>
      ensureSandbox h opts =
        ([CallCheckSandboxes [current], CallResolveTunnels current],
         Inr \<lparr> sandboxId = current, tunnelUrl = openCodeUrl t, previewUrl = tunnelPreviewUrl t,
               expiresAt = None, recovered = True \<rparr>)) \<and>
   (\<not> truthy (currentSandboxId opts) \<longrightarrow>
      ensureSandbox h opts = createAndReturn h opts []) \<and>
   (currentSandboxId opts = Some current \<and> current \<noteq> [] \<and> checkSandboxes h [current] = Inr [] \<longrightarrow>
      ensureSandbox h opts = createAndReturn h opts [CallCheckSandboxes [current]]) \<and>
   (createSandbox h opts = Inr c \<longrightarrow>
      createAndReturn h opts calls =
        (calls @ [CallCreateSandbox opts],
         Inr \<lparr> sandboxId = created_sandboxId c, tunnelUrl = created_tunnelUrl c,
               previewUrl = created_previewUrl c, expiresAt = Some (created_expiresAt c),
               recovered = False \<rparr>))"
  by (auto simp: ensureSandbox_def createAndReturn_def truthy_def split: option.splits sum.splits)

theorem ensureSandbox_recovers_or_creates_witness:
  "ensureSandbox (exampleHost dockerPsOutput (Some 0)) (exampleOpts (Some ''abc123'')) =
     ([CallCheckSandboxes [''abc123''], CallResolveTunnels ''abc123''],
      Inr \<lparr> sandboxId = ''abc123'', tunnelUrl = ''http://vps:32768'', previewUrl = ''http://vps:32769'',
            expiresAt = None, recovered = True \<rparr>) \<and>
   ensureSandbox (exampleHost dockerPsOutput (Some 0)) (exampleOpts None) =
     ([CallCreateSandbox (exampleOpts None)],
      Inr \<lparr> sandboxId = ''fedcba'', tunnelUrl = ''http://vps:40000'', previewUrl = ''http://vps:40001'',
            expiresAt = Some 3600000, recovered = False \<rparr>) \<and>
   ensureSandbox (exampleHost dockerPsOutput (Some 0)) (exampleOpts (Some ''777'')) =
     ([CallCheckSandboxes [''777''], CallCreateSandbox (exampleOpts (Some ''777''))],
      Inr \<lparr> sandboxId = ''fedcba'', tunnelUrl = ''http://vps:40000'', previewUrl = ''http://vps:40001'',
            expiresAt = Some 3600000, recovered = False \<rparr>)"
proof -
  let ?h = "exampleHost dockerPsOutput (Some 0)"
  let ?c = "\<lparr> created_sandboxId = ''fedcba'', created_tunnelUrl = ''http://vps:40000'',
              created_previewUrl = ''http://vps:40001'', created_expiresAt = 3600000 \<rparr>"
  have c: "\<And>opts. createSandbox ?h opts = Inr ?c"
    by (simp add: exampleHost_def)
  have t: "resolveTunnels ?h ''abc123'' =
      Inr \<lparr> openCodeUrl = ''http://vps:32768'', tunnelPreviewUrl = ''http://vps:32769'' \<rparr>"
    by (simp add: exampleHost_def)
  show ?thesis
    using ensureSandbox_recovers_or_creates
            [of "exampleOpts (Some ''abc123'')" "''abc123''" ?h "[''abc123'']"
                "\<lparr> openCodeUrl = ''http://vps:32768'', tunnelPreviewUrl = ''http://vps:32769'' \<rparr>"
                ?c "[]"]
          ensureSandbox_recovers_or_creates
            [of "exampleOpts None" "''777''" ?h "[]" _ ?c "[]"]
          ensureSandbox_recovers_or_creates
            [of "exampleOpts (Some ''777'')" "''777''" ?h "[]" _ ?c "[CallCheckSandboxes [''777'']]"]
          checkSandboxes_example_alive checkSandboxes_example_dead c t
    by (simp add: exampleOpts_def truthy_def)
qed

subsection \<open>Errors of the session\<close>

lemma isAbortLike_name:
  "map_option toLowerCase name = Some ''aborterror'' \<or>
   map_option toLowerCase name = Some ''messageabortederror'' \<Longrightarrow>
   isAbortLikeOpenCodeError (Some (ErrObject name message dataMessage))"
  by (auto simp: isAbortLikeOpenCodeError_def Let_def)

lemma isAbortLike_message:
  "str_includes (toLowerCase m) ''operation was aborted'' \<Longrightarrow>
   message = Some m \<or> dataMessage = Some m \<Longrightarrow>
   isAbortLikeOpenCodeError (Some (ErrObject name message dataMessage))"
  by (auto simp: isAbortLikeOpenCodeError_def Let_def List.map_filter_def split: option.splits)

lemma process_session_error_count:
  assumes "process env (SessionError properties) s = (s', out, thrown)"
  shows "countOf isErrorBroadcast out =
           (case properties of
              None \<Rightarrow> 0
            | Some error \<Rightarrow> if isAbortLikeOpenCodeError error then 0 else 1)"
proof -
  obtain s1 out1 where hb: "maybeBroadcastToolProgressHeartbeat (now_heartbeat env) s = (s1, out1)"
    by (cases "maybeBroadcastToolProgressHeartbeat (now_heartbeat env) s")
  have "countOf isErrorBroadcast out1 = 0"
    using heartbeat_fields(5)[OF hb] by (rule status_counts)
  with assms hb show ?thesis
    by (auto simp: process_def processTry_def handleSessionError_def Let_def
        split: option.splits if_splits)
qed

text \<open>
  C4, as stated, fails on a \<open>session.error\<close> event without \<open>properties\<close>: it carries no
  abort-like error, and the handler's guard returns before any broadcast.
\<close>

theorem session_error_without_properties:
  "countOf isErrorBroadcast (fst (snd (process (envAt 0) (SessionError None) initial_state))) \<noteq> 1"
  by (simp add: eval_defs)

text \<open>
  C4, amended. A \<open>session.error\<close> event that has \<open>properties\<close> is answered with no \<open>error\<close>
  broadcast when its error is abort-like and with exactly one otherwise; an event without
  \<open>properties\<close> is answered with none. An error object is abort-like when its name is
  \<open>AbortError\<close> or \<open>MessageAbortedError\<close> in any letter case, or when its \<open>message\<close> or
  \<open>data.message\<close> contains \<open>operation was aborted\<close> in any letter case.
\<close>

theorem session_error_classified:
  "(process env (SessionError properties) s = (s', out, thrown) \<longrightarrow>
      countOf isErrorBroadcast out =
        (case properties of
           None \<Rightarrow> 0
         | Some error \<Rightarrow> if isAbortLikeOpenCodeError error then 0 else 1)) \<and>
   (map_option toLowerCase name = Some ''aborterror'' \<or>
    map_option toLowerCase name = Some ''messageabortederror'' \<longrightarrow>
      isAbortLikeOpenCodeError (Some (ErrObject name message dataMessage))) \<and>
   (str_includes (toLowerCase m) ''operation was aborted'' \<and>
    (message = Some m \<or> dataMessage = Some m) \<longrightarrow>
      isAbortLikeOpenCodeError (Some (ErrObject name message dataMessage)))"
  using process_session_error_count isAbortLike_name isAbortLike_message by blast

theorem session_error_classified_witness:
  "countOf isErrorBroadcast
     (fst (snd (process (envAt 0) (SessionError (Some (Some (ErrObject (Some ''AbortError'') None None))))
                  initial_state))) = 0 \<and>
   countOf isErrorBroadcast
     (fst (snd (process (envAt 0)
                  (SessionError (Some (Some (ErrObject (Some ''APIError'') None
                                               (Some ''The operation was aborted.'')))))
                  initial_state))) = 0 \<and>
   countOf isErrorBroadcast
     (fst (snd (process (envAt 0)
                  (SessionError (Some (Some (ErrObject (Some ''APIError'') None (Some ''rate limited'')))))
                  initial_state))) = 1"
proof -
  let ?run = "\<lambda>e. process (envAt 0) (SessionError (Some (Some e))) initial_state"
  have a: "isAbortLikeOpenCodeError (Some (ErrObject (Some ''AbortError'') None None))"
    using session_error_classified[of _ _ _ _ _ _ "Some ''AbortError''" None None]
    by (simp add: toLowerCase_def lower_char_def)
  have b: "isAbortLikeOpenCodeError
             (Some (ErrObject (Some ''APIError'') None (Some ''The operation was aborted.'')))"
    using session_error_classified
            [of _ _ _ _ _ _ "Some ''APIError''" None "Some ''The operation was aborted.''"
                "''The operation was aborted.''"]
    by (simp add: toLowerCase_def lower_char_def)
  have c: "\<not> isAbortLikeOpenCodeError (Some (ErrObject (Some ''APIError'') None (Some ''rate limited'')))"
    by (simp add: isAbortLikeOpenCodeError_def toLowerCase_def lower_char_def List.map_filter_def)
  have d: "countOf isErrorBroadcast (fst (snd (?run e))) =
             (if isAbortLikeOpenCodeError (Some e) then 0 else 1)" for e
    using session_error_classified
            [of "envAt 0" "Some (Some e)" initial_state
                "fst (?run e)" "fst (snd (?run e))" "snd (snd (?run e))"]
    by simp
  show ?thesis using a b c by (simp add: d)
qed

subsection \<open>Totality of process\<close>

lemma process_never_throws: "snd (snd (process env event s)) = None"
  by (simp add: process_def Let_def split: prod.splits option.splits)

lemma process_logs_exception:
  "snd (snd (processTry env event s)) = Some err \<Longrightarrow>
   LogError err \<in> set (fst (snd (process env event s)))"
  by (auto simp: process_def Let_def split: prod.splits option.splits)

lemma process_ignored_event:
  assumes "event = ServerConnected \<or> event = ServerHeartbeat \<or> event = OtherEvent t"
  shows "process env event s =
           (fst (maybeBroadcastToolProgressHeartbeat (now_heartbeat env) s),
            snd (maybeBroadcastToolProgressHeartbeat (now_heartbeat env) s), None)"
  using assms by (auto simp: process_def processTry_def Let_def split: prod.splits)

text \<open>
  C10, as stated, fails on a \<open>server.heartbeat\<close> event that arrives 15 seconds after the start
  of a tool that is still running: the heartbeat of the processor runs before the event's
  type is looked at, and broadcasts a \<open>status\<close>.
\<close>

theorem heartbeat_event_broadcasts:
  "countOf isBroadcast
     (fst (snd (process (envAt 15000) ServerHeartbeat
                  (fst (run [Process (envAt 0) (partEvent (exampleToolPart ''running'') None)]
                          initial_state))))) = 1"
  by (simp add: eval_defs)

text \<open>
  C10, amended. \<open>process\<close> returns normally on every event and state: an exception thrown
  in its \<open>try\<close> block is logged and not propagated. On an event of type
  \<open>server.connected\<close>, \<open>server.heartbeat\<close> or of an unknown type it does what the tool-progress
  heartbeat does and nothing else: it broadcasts \<open>status\<close> messages only, and nothing at all
  while no running tool is watched.
\<close>

theorem process_total:
  "snd (snd (process env event s)) = None \<and>
   (snd (snd (processTry env event s)) = Some err \<longrightarrow>
      LogError err \<in> set (fst (snd (process env event s)))) \<and>
   (event = ServerConnected \<or> event = ServerHeartbeat \<or> event = OtherEvent t \<longrightarrow>
      process env event s =
        (fst (maybeBroadcastToolProgressHeartbeat (now_heartbeat env) s),
         snd (maybeBroadcastToolProgressHeartbeat (now_heartbeat env) s), None) \<and>
      list_all isStatus (fst (snd (process env event s))) \<and>
      (runningToolWatch s = [] \<longrightarrow> process env event s = (s, [], None)))"
proof (intro conjI impI)
  assume ev: "event = ServerConnected \<or> event = ServerHeartbeat \<or> event = OtherEvent t"
  show eq: "process env event s =
        (fst (maybeBroadcastToolProgressHeartbeat (now_heartbeat env) s),
         snd (maybeBroadcastToolProgressHeartbeat (now_heartbeat env) s), None)"
    using ev by (rule process_ignored_event)
  show "list_all isStatus (fst (snd (process env event s)))"
    using heartbeat_fields(5)[OF surjective_pairing, of "now_heartbeat env" s] by (simp add: eq)
  show "process env event s = (s, [], None)" if "runningToolWatch s = []"
    using that by (simp add: eq heartbeat_idle)
qed (simp_all add: process_never_throws process_logs_exception)

theorem process_total_witness:
  "process (envAt 5) (MessagePartUpdated None) initial_state = (initial_state, [LogError TypeError], None) \<and>
   process (envAt 5) (OtherEvent ''file.edited'') initial_state = (initial_state, [], None)"
proof -
  have t: "snd (snd (processTry (envAt 5) (MessagePartUpdated None) initial_state)) = Some TypeError"
    by (simp add: eval_defs)
  have i: "runningToolWatch initial_state = []"
    by (simp add: initial_state_def)
  show ?thesis
    using process_total[of "envAt 5" "MessagePartUpdated None" initial_state TypeError]
          process_total[of "envAt 5" "OtherEvent ''file.edited''" initial_state _ "''file.edited''"]
          t i
    by (simp add: eval_defs)
qed

subsection \<open>Sequences of calls\<close>

lemma run_append:
  "run (xs @ ys) s = (fst (run ys (fst (run xs s))), snd (run xs s) @ snd (run ys (fst (run xs s))))"
proof (induction xs arbitrary: s)
  case Nil
  show ?case by simp
next
  case (Cons c xs)
  show ?case by (cases c) (simp_all add: Cons.IH Let_def split: prod.splits)
qed

lemma run_Process:
  "run (Process env event # rest) s =
     (fst (run rest (fst (process env event s))),
      fst (snd (process env event s)) @ snd (run rest (fst (process env event s))))"
  by (simp add: Let_def split: prod.splits)

subsection \<open>Completion of the current message\<close>

lemma complete_cases:
  "completeCurrentMessage s = (s', out) \<Longrightarrow>
     (out = [] \<and> s' = s \<and> (\<not> truthy (currentAssistantMessageId s) \<or> hasRunningTools s)) \<or>
     (out = [Broadcast (MessageComplete (currentAssistantMessageId s))] \<and>
      truthy (currentAssistantMessageId s) \<and> \<not> hasRunningTools s \<and>
      s' = s\<lparr> currentAssistantMessageId :=
                 (if toolStates s \<noteq> [] then None else currentAssistantMessageId s),
               toolStates := [], runningToolWatch := [], sentToolEvents := {} \<rparr>)"
  by (auto simp: completeCurrentMessage_def Let_def split: if_splits)

text \<open>What an idle event does, after the heartbeat: it completes the current message.\<close>

lemma process_idle:
  assumes "isIdleEvent event"
  shows "process env event s =
           (fst (completeCurrentMessage (fst (maybeBroadcastToolProgressHeartbeat (now_heartbeat env) s))),
            snd (maybeBroadcastToolProgressHeartbeat (now_heartbeat env) s) @
            snd (completeCurrentMessage (fst (maybeBroadcastToolProgressHeartbeat (now_heartbeat env) s))),
            None)"
  using assms
  by (auto simp: isIdleEvent_def process_def processTry_def handleSessionIdle_def
      handleSessionStatus_def Let_def split: prod.splits)

lemma heartbeat_running:
  "hasRunningTools (fst (maybeBroadcastToolProgressHeartbeat now s)) = hasRunningTools s"
  using heartbeat_fields(3)[OF surjective_pairing, of now s] by (simp add: hasRunningTools_def)

lemma idle_blocked:
  assumes "isIdleEvent event" and "\<not> truthy (currentAssistantMessageId s) \<or> hasRunningTools s"
  shows "currentAssistantMessageId (fst (process env event s)) = currentAssistantMessageId s"
    and "toolStates (fst (process env event s)) = toolStates s"
    and "sentToolEvents (fst (process env event s)) = sentToolEvents s"
    and "countOf isMessageComplete (fst (snd (process env event s))) = 0"
proof -
  let ?h = "maybeBroadcastToolProgressHeartbeat (now_heartbeat env) s"
  note f = heartbeat_fields[OF surjective_pairing, of "now_heartbeat env" s]
  have "\<not> truthy (currentAssistantMessageId (fst ?h)) \<or> hasRunningTools (fst ?h)"
    using assms(2) f(1) heartbeat_running[of "now_heartbeat env" s] by simp
  then have c: "completeCurrentMessage (fst ?h) = (fst ?h, [])"
    by (auto simp: completeCurrentMessage_def)
  show "currentAssistantMessageId (fst (process env event s)) = currentAssistantMessageId s"
    and "toolStates (fst (process env event s)) = toolStates s"
    and "sentToolEvents (fst (process env event s)) = sentToolEvents s"
    and "countOf isMessageComplete (fst (snd (process env event s))) = 0"
    using f status_counts(2)[OF f(5)] by (simp_all add: process_idle[OF assms(1)] c)
qed

lemma idle_completes:
  assumes "isIdleEvent event" and "truthy (currentAssistantMessageId s)" and "\<not> hasRunningTools s"
  shows "currentAssistantMessageId (fst (process env event s)) =
           (if toolStates s \<noteq> [] then None else currentAssistantMessageId s)"
    and "toolStates (fst (process env event s)) = []"
    and "countOf isMessageComplete (fst (snd (process env event s))) = 1"
proof -
  let ?h = "maybeBroadcastToolProgressHeartbeat (now_heartbeat env) s"
  note f = heartbeat_fields[OF surjective_pairing, of "now_heartbeat env" s]
  have "truthy (currentAssistantMessageId (fst ?h))" "\<not> hasRunningTools (fst ?h)"
    using assms(2,3) f(1) heartbeat_running[of "now_heartbeat env" s] by simp_all
  then have c: "completeCurrentMessage (fst ?h) =
      ((fst ?h)\<lparr> currentAssistantMessageId :=
                 (if toolStates (fst ?h) \<noteq> [] then None else currentAssistantMessageId (fst ?h)),
               toolStates := [], runningToolWatch := [], sentToolEvents := {} \<rparr>,
       [Broadcast (MessageComplete (currentAssistantMessageId (fst ?h)))])"
    by (auto simp: completeCurrentMessage_def Let_def)
  show "currentAssistantMessageId (fst (process env event s)) =
           (if toolStates s \<noteq> [] then None else currentAssistantMessageId s)"
    and "toolStates (fst (process env event s)) = []"
    and "countOf isMessageComplete (fst (snd (process env event s))) = 1"
    using f status_counts(2)[OF f(5)] by (simp_all add: process_idle[OF assms(1)] c)
qed

lemma idles_blocked:
  assumes "list_all isIdleCall calls" and "\<not> truthy (currentAssistantMessageId s) \<or> hasRunningTools s"
  shows "currentAssistantMessageId (fst (run calls s)) = currentAssistantMessageId s \<and>
         toolStates (fst (run calls s)) = toolStates s \<and>
         sentToolEvents (fst (run calls s)) = sentToolEvents s \<and>
         countOf isMessageComplete (snd (run calls s)) = 0"
  using assms
proof (induction calls arbitrary: s)
  case Nil
  show ?case by simp
next
  case (Cons c calls)
  then obtain env event where c: "c = Process env event" and i: "isIdleEvent event"
    by (cases c) auto
  note b = idle_blocked[OF i Cons.prems(2), of env]
  have "\<not> truthy (currentAssistantMessageId (fst (process env event s))) \<or>
        hasRunningTools (fst (process env event s))"
    using Cons.prems(2) b(1,2) by (simp add: hasRunningTools_def)
  with Cons.IH[of "fst (process env event s)"] Cons.prems(1) b show ?case
    by (simp add: c run_Process del: run.simps)
qed

lemma triple_collapse: "r = (fst r, fst (snd r), snd (snd r))"
  by simp

lemma heartbeat_proj [simp]:
  "currentAssistantMessageId (fst (maybeBroadcastToolProgressHeartbeat now s)) =
     currentAssistantMessageId s"
  "currentOpenCodeUserMessageId (fst (maybeBroadcastToolProgressHeartbeat now s)) =
     currentOpenCodeUserMessageId s"
  "toolStates (fst (maybeBroadcastToolProgressHeartbeat now s)) = toolStates s"
  "sentToolEvents (fst (maybeBroadcastToolProgressHeartbeat now s)) = sentToolEvents s"
  "list_all isStatus (snd (maybeBroadcastToolProgressHeartbeat now s))"
  using heartbeat_fields[OF surjective_pairing, of now s] by simp_all

lemma heartbeat_counts [simp]:
  "countOf isErrorBroadcast (snd (maybeBroadcastToolProgressHeartbeat now s)) = 0"
  "countOf isMessageComplete (snd (maybeBroadcastToolProgressHeartbeat now s)) = 0"
  "countOf isMessage (snd (maybeBroadcastToolProgressHeartbeat now s)) = 0"
  "countOf isToolStart (snd (maybeBroadcastToolProgressHeartbeat now s)) = 0"
  "countOf isToolEnd (snd (maybeBroadcastToolProgressHeartbeat now s)) = 0"
  "countOf isTextBroadcast (snd (maybeBroadcastToolProgressHeartbeat now s)) = 0"
  "countOf (isToolUpdateOf k) (snd (maybeBroadcastToolProgressHeartbeat now s)) = 0"
  "countOf (carriesMessageId m) (snd (maybeBroadcastToolProgressHeartbeat now s)) = 0"
  by (rule status_counts, rule heartbeat_proj(5))+

lemma heartbeat_hasRunningTools [simp]:
  "hasRunningTools (fst (maybeBroadcastToolProgressHeartbeat now s)) = hasRunningTools s"
  by (simp add: hasRunningTools_def)

subsection \<open>The assistant message\<close>

lemma ensureAssistantMessage_proj [simp]:
  "currentOpenCodeUserMessageId (fst (ensureAssistantMessage env m s)) = currentOpenCodeUserMessageId s"
  "toolStates (fst (ensureAssistantMessage env m s)) = toolStates s"
  "runningToolWatch (fst (ensureAssistantMessage env m s)) = runningToolWatch s"
  "sentToolEvents (fst (ensureAssistantMessage env m s)) = sentToolEvents s"
  "hasRunningTools (fst (ensureAssistantMessage env m s)) = hasRunningTools s"
  by (simp_all add: ensureAssistantMessage_def hasRunningTools_def)

lemma ensureAssistantMessage_current:
  "currentAssistantMessageId (fst (ensureAssistantMessage env m s)) =
     (if truthy (currentAssistantMessageId s) then currentAssistantMessageId s else m)"
  by (simp add: ensureAssistantMessage_def)

lemma ensureAssistantMessage_out:
  "snd (ensureAssistantMessage env m s) =
     (if truthy (currentAssistantMessageId s) then []
      else [Broadcast (Message m (now_createdAt env))])"
  by (simp add: ensureAssistantMessage_def)

lemma ensureAssistantMessage_counts [simp]:
  "countOf isMessageComplete (snd (ensureAssistantMessage env m s)) = 0"
  "countOf isToolStart (snd (ensureAssistantMessage env m s)) = 0"
  "countOf isToolEnd (snd (ensureAssistantMessage env m s)) = 0"
  "countOf isTextBroadcast (snd (ensureAssistantMessage env m s)) = 0"
  "countOf isErrorBroadcast (snd (ensureAssistantMessage env m s)) = 0"
  "countOf isMessage (snd (ensureAssistantMessage env m s)) =
     (if truthy (currentAssistantMessageId s) then 0 else 1)"
  by (simp_all add: ensureAssistantMessage_def)

lemma trackUserMessage_proj [simp]:
  "currentAssistantMessageId (trackUserMessage m s) = currentAssistantMessageId s"
  "toolStates (trackUserMessage m s) = toolStates s"
  "runningToolWatch (trackUserMessage m s) = runningToolWatch s"
  "sentToolEvents (trackUserMessage m s) = sentToolEvents s"
  "hasRunningTools (trackUserMessage m s) = hasRunningTools s"
  by (simp_all add: trackUserMessage_def hasRunningTools_def)

lemma trackUserMessage_user:
  "currentOpenCodeUserMessageId (trackUserMessage m s) =
     (case currentOpenCodeUserMessageId s of None \<Rightarrow> m | Some u \<Rightarrow> Some u)"
  by (simp add: trackUserMessage_def split: option.splits)

subsection \<open>The three steps of the tool handler\<close>

lemma keys_differ [simp]:
  "endKey p \<noteq> startKey p" "endKey p \<noteq> argsKey p" "endKey p \<noteq> summaryKey p items"
  "startKey p \<noteq> argsKey p" "startKey p \<noteq> summaryKey p items"
  "argsKey p \<noteq> summaryKey p items"
  "startKey p \<noteq> endKey p" "argsKey p \<noteq> endKey p" "summaryKey p items \<noteq> endKey p"
  "argsKey p \<noteq> startKey p" "summaryKey p items \<noteq> startKey p"
  "summaryKey p items \<noteq> argsKey p"
  by (simp_all add: endKey_def startKey_def argsKey_def summaryKey_def)

lemma toolStartStep_proj [simp]:
  "currentAssistantMessageId (fst (toolStartStep env p c t s)) = currentAssistantMessageId s"
  "currentOpenCodeUserMessageId (fst (toolStartStep env p c t s)) = currentOpenCodeUserMessageId s"
  "startKey p \<in> sentToolEvents (fst (toolStartStep env p c t s))"
  "endKey p \<in> sentToolEvents (fst (toolStartStep env p c t s)) \<longleftrightarrow> endKey p \<in> sentToolEvents s"
  by (auto simp: toolStartStep_def Let_def)

lemma toolStartStep_sent:
  "sentToolEvents s \<subseteq> sentToolEvents (fst (toolStartStep env p c t s))"
  "partArgs p \<noteq> [] \<Longrightarrow> argsKey p \<in> sentToolEvents (fst (toolStartStep env p c t s))"
  by (auto simp: toolStartStep_def Let_def)

lemma toolStartStep_toolStates:
  "toolStates (fst (toolStartStep env p c t s)) =
     (if startKey p \<notin> sentToolEvents s
      then AList.update c \<lparr> startEmitted = True, argsEmitted = (partArgs p \<noteq> []),
                            endEmitted = False, status = Running \<rparr> (toolStates s)
      else toolStates s)"
  by (auto simp: toolStartStep_def Let_def)

lemma toolStartStep_out:
  "snd (toolStartStep env p c t s) = [] \<or>
   snd (toolStartStep env p c t s) =
     [Broadcast (ToolStart (if truthy (currentAssistantMessageId s)
                            then currentAssistantMessageId s else None)
                   (part_id p) c t (partArgs p))]"
  by (auto simp: toolStartStep_def Let_def)

lemma toolStartStep_seen:
  assumes "startKey p \<in> sentToolEvents s" and "partArgs p \<noteq> [] \<longrightarrow> argsKey p \<in> sentToolEvents s"
  shows "toolStartStep env p c t s = (s, [])"
  using assms by (auto simp: toolStartStep_def Let_def)

lemma toolStartStep_fresh:
  assumes "startKey p \<notin> sentToolEvents s"
  shows "countOf isToolStart (snd (toolStartStep env p c t s)) = 1"
  using assms by (auto simp: toolStartStep_def Let_def)

lemma toolStartStep_counts [simp]:
  "countOf isMessageComplete (snd (toolStartStep env p c t s)) = 0"
  "countOf isMessage (snd (toolStartStep env p c t s)) = 0"
  "countOf isToolEnd (snd (toolStartStep env p c t s)) = 0"
  "countOf isTextBroadcast (snd (toolStartStep env p c t s)) = 0"
  "countOf isErrorBroadcast (snd (toolStartStep env p c t s)) = 0"
  "countOf isToolStart (snd (toolStartStep env p c t s)) \<le> 1"
  using toolStartStep_out[of env p c t s] by auto

lemma toolMetadataStep_proj [simp]:
  "currentAssistantMessageId (fst (toolMetadataStep env p c t s)) = currentAssistantMessageId s"
  "currentOpenCodeUserMessageId (fst (toolMetadataStep env p c t s)) = currentOpenCodeUserMessageId s"
  "toolStates (fst (toolMetadataStep env p c t s)) = toolStates s"
  "endKey p \<in> sentToolEvents (fst (toolMetadataStep env p c t s)) \<longleftrightarrow> endKey p \<in> sentToolEvents s"
  by (auto simp: toolMetadataStep_def Let_def split: option.splits)

lemma toolMetadataStep_sent:
  "sentToolEvents s \<subseteq> sentToolEvents (fst (toolMetadataStep env p c t s))"
  by (auto simp: toolMetadataStep_def Let_def split: option.splits)

lemma toolMetadataStep_out:
  "fst (snd (toolMetadataStep env p c t s)) = [] \<or>
   (\<exists>md. fst (snd (toolMetadataStep env p c t s)) = [Broadcast (ToolMetadata c t (partTitle p) md)])"
  by (auto simp: toolMetadataStep_def Let_def split: option.splits)

lemma toolMetadataStep_counts [simp]:
  "countOf isMessageComplete (fst (snd (toolMetadataStep env p c t s))) = 0"
  "countOf isMessage (fst (snd (toolMetadataStep env p c t s))) = 0"
  "countOf isToolStart (fst (snd (toolMetadataStep env p c t s))) = 0"
  "countOf isToolEnd (fst (snd (toolMetadataStep env p c t s))) = 0"
  "countOf isTextBroadcast (fst (snd (toolMetadataStep env p c t s))) = 0"
  "countOf isErrorBroadcast (fst (snd (toolMetadataStep env p c t s))) = 0"
  "countOf (carriesMessageId m) (fst (snd (toolMetadataStep env p c t s))) = 0"
  using toolMetadataStep_out[of env p c t s] by auto

lemma toolMetadataStep_readable [simp]:
  "summaryReadable p \<Longrightarrow> snd (snd (toolMetadataStep env p c t s)) = None"
  by (fastforce simp: toolMetadataStep_def summaryReadable_def Let_def list_ex_iff list_all_iff
      split: option.splits)

lemma toolCompletionStep_proj [simp]:
  "currentAssistantMessageId (fst (toolCompletionStep p c t s)) = currentAssistantMessageId s"
  "currentOpenCodeUserMessageId (fst (toolCompletionStep p c t s)) = currentOpenCodeUserMessageId s"
  by (auto simp: toolCompletionStep_def)

lemma toolCompletionStep_sent:
  "sentToolEvents s \<subseteq> sentToolEvents (fst (toolCompletionStep p c t s))"
  "isCompletion p \<Longrightarrow> endKey p \<in> sentToolEvents (fst (toolCompletionStep p c t s))"
  by (auto simp: toolCompletionStep_def isCompletion_def)

lemma toolCompletionStep_out:
  "snd (toolCompletionStep p c t s) = [] \<or>
   snd (toolCompletionStep p c t s) = [Broadcast (ToolEnd (part_id p) c t (toolResult p) 0)]"
  by (auto simp: toolCompletionStep_def)

lemma toolCompletionStep_counts [simp]:
  "countOf isMessageComplete (snd (toolCompletionStep p c t s)) = 0"
  "countOf isMessage (snd (toolCompletionStep p c t s)) = 0"
  "countOf isToolStart (snd (toolCompletionStep p c t s)) = 0"
  "countOf isTextBroadcast (snd (toolCompletionStep p c t s)) = 0"
  "countOf isErrorBroadcast (snd (toolCompletionStep p c t s)) = 0"
  "countOf (carriesMessageId m) (snd (toolCompletionStep p c t s)) = 0"
  "countOf isToolEnd (snd (toolCompletionStep p c t s)) \<le> 1"
  using toolCompletionStep_out[of p c t s] by auto

lemma toolCompletionStep_seen:
  assumes "isCompletion p \<longrightarrow> endKey p \<in> sentToolEvents s"
  shows "toolCompletionStep p c t s = (s, [])"
  using assms by (auto simp: toolCompletionStep_def isCompletion_def)

lemma toolCompletionStep_fresh:
  assumes "isCompletion p" and "endKey p \<notin> sentToolEvents s"
  shows "countOf isToolEnd (snd (toolCompletionStep p c t s)) = 1"
    and "toolStates (fst (toolCompletionStep p c t s)) =
           (case map_of (toolStates s) c of
              None \<Rightarrow> toolStates s
            | Some st \<Rightarrow>
                AList.update c
                  (st\<lparr> status := (if partStatus p = Some ''completed'' then Completed else Errored),
                       endEmitted := True \<rparr>)
                  (toolStates s))"
  using assms by (auto simp: toolCompletionStep_def isCompletion_def)

text \<open>The tool handler as the composition of its steps.\<close>

lemma handleToolPart_steps:
  "handleToolPart env p c t s =
    (let r1 = ensureAssistantMessage env (part_messageID p) s;
         r2 = toolStartStep env p c t (fst r1);
         r3 = toolMetadataStep env p c t (fst r2);
         r4 = toolCompletionStep p c t (fst r3)
     in case snd (snd r3) of
          Some err \<Rightarrow> (fst r3, snd r1 @ snd r2 @ fst (snd r3), Some err)
        | None \<Rightarrow> (fst r4, snd r1 @ snd r2 @ fst (snd r3) @ snd r4, None))"
  by (simp add: handleToolPart_def Let_def case_prod_beta split: option.splits)

lemma process_tool_part:
  assumes "acceptedToolPart env p c t"
  shows "process env (partEvent p delta) s =
     (let h = maybeBroadcastToolProgressHeartbeat (now_heartbeat env) s;
          r = handleToolPart env p c t (fst h)
      in case snd (snd r) of
           None \<Rightarrow> (fst r, snd h @ fst (snd r), None)
         | Some err \<Rightarrow> (fst r, snd h @ fst (snd r) @ [LogError err], None))"
  using assms
  by (auto simp: acceptedToolPart_def passesPartChecks_def partEvent_def process_def processTry_def
      handlePartUpdate_def Let_def split: prod.splits option.splits)

lemma handleToolPart_counts [simp]:
  "countOf isMessageComplete (fst (snd (handleToolPart env p c t s))) = 0"
  "countOf isTextBroadcast (fst (snd (handleToolPart env p c t s))) = 0"
  "countOf isErrorBroadcast (fst (snd (handleToolPart env p c t s))) = 0"
  by (simp_all add: handleToolPart_steps Let_def split: option.splits)

lemma handleToolPart_completes:
  assumes "truthy (currentAssistantMessageId s)" and "toolStates s = [(c, st)]"
    and "endKey p \<notin> sentToolEvents s" and "isCompletion p" and "summaryReadable p"
  shows "currentAssistantMessageId (fst (handleToolPart env p c t s)) = currentAssistantMessageId s"
    and "\<exists>st'. toolStates (fst (handleToolPart env p c t s)) = [(c, st')] \<and> status st' \<noteq> Running"
  using assms
  by (simp_all add: handleToolPart_steps Let_def toolCompletionStep_fresh toolStartStep_toolStates
      ensureAssistantMessage_current)

subsection \<open>Where a message is completed\<close>

lemma complete_blocked:
  "\<not> truthy (currentAssistantMessageId s) \<or> hasRunningTools s \<Longrightarrow>
   completeCurrentMessage s = (s, [])"
  by (auto simp: completeCurrentMessage_def)

lemma handleTextPart_counts [simp]:
  "countOf isMessageComplete (fst (snd (handleTextPart env p d s))) = 0"
  "countOf isToolStart (fst (snd (handleTextPart env p d s))) = 0"
  "countOf isToolEnd (fst (snd (handleTextPart env p d s))) = 0"
  "countOf isErrorBroadcast (fst (snd (handleTextPart env p d s))) = 0"
  by (simp_all add: handleTextPart_def Let_def case_prod_beta)

lemma handlePartUpdate_no_complete [simp]:
  "countOf isMessageComplete (fst (snd (handlePartUpdate env props s))) = 0"
  by (simp add: handlePartUpdate_def split: option.splits)

lemma handleMessageUpdate_running:
  "hasRunningTools s \<Longrightarrow>
   countOf isMessageComplete (fst (snd (handleMessageUpdate env props s))) = 0"
  by (auto simp: handleMessageUpdate_def Let_def case_prod_beta complete_blocked
      split: option.splits)

lemma handleSessionError_counts [simp]:
  "countOf isMessageComplete (fst (snd (handleSessionError props s))) = 0"
  "countOf isMessage (fst (snd (handleSessionError props s))) = 0"
  "countOf isToolStart (fst (snd (handleSessionError props s))) = 0"
  "countOf isToolEnd (fst (snd (handleSessionError props s))) = 0"
  "countOf isTextBroadcast (fst (snd (handleSessionError props s))) = 0"
  by (simp_all add: handleSessionError_def Let_def split: option.splits)

lemma processTry_proj:
  "processTry env event s =
     (let h = maybeBroadcastToolProgressHeartbeat (now_heartbeat env) s;
          r = (case event of
                 ServerConnected \<Rightarrow> (fst h, [], None)
               | ServerHeartbeat \<Rightarrow> (fst h, [], None)
               | MessageUpdated properties \<Rightarrow> handleMessageUpdate env properties (fst h)
               | MessagePartUpdated properties \<Rightarrow> handlePartUpdate env properties (fst h)
               | SessionIdle \<Rightarrow> handleSessionIdle (fst h)
               | SessionStatus properties \<Rightarrow> handleSessionStatus properties (fst h)
               | SessionError properties \<Rightarrow> handleSessionError properties (fst h)
               | OtherEvent t \<Rightarrow> (fst h, [], None))
      in (fst r, snd h @ fst (snd r), snd (snd r)))"
  by (simp add: processTry_def Let_def case_prod_beta)

lemma process_proj:
  "fst (process env event s) = fst (processTry env event s)"
  "filter isBroadcast (fst (snd (process env event s))) =
     filter isBroadcast (fst (snd (processTry env event s)))"
  by (simp_all add: process_def Let_def case_prod_beta split: option.splits)

lemma process_count:
  assumes "P (LogError TypeError) = False"
  shows "countOf P (fst (snd (process env event s))) = countOf P (fst (snd (processTry env event s)))"
proof -
  have "P (LogError err) = False" for err
    using assms by (cases err) simp
  then show ?thesis
    by (simp add: process_def Let_def case_prod_beta split: option.splits)
qed

lemma process_running_no_complete:
  assumes "hasRunningTools s"
  shows "countOf isMessageComplete (fst (snd (process env event s))) = 0"
proof -
  have "countOf isMessageComplete (fst (snd (processTry env event s))) = 0"
    using assms
    by (cases event)
       (simp_all add: processTry_proj Let_def handleMessageUpdate_running handleSessionIdle_def
          handleSessionStatus_def complete_blocked split: option.splits)
  then show ?thesis by (simp add: process_count)
qed

lemma process_completion:
  assumes "acceptedToolPart env p c t"
    and "truthy (currentAssistantMessageId s)" and "toolStates s = [(c, st)]"
    and "endKey p \<notin> sentToolEvents s" and "isCompletion p" and "summaryReadable p"
  shows "currentAssistantMessageId (fst (process env (partEvent p delta) s)) =
           currentAssistantMessageId s"
    and "\<exists>st'. toolStates (fst (process env (partEvent p delta) s)) = [(c, st')] \<and>
               status st' \<noteq> Running"
    and "countOf isMessageComplete (fst (snd (process env (partEvent p delta) s))) = 0"
proof -
  let ?h = "fst (maybeBroadcastToolProgressHeartbeat (now_heartbeat env) s)"
  have h: "truthy (currentAssistantMessageId ?h)" "toolStates ?h = [(c, st)]"
    "endKey p \<notin> sentToolEvents ?h"
    using assms(2-4) by simp_all
  note r = handleToolPart_completes[OF h assms(5,6), of env t]
  show "currentAssistantMessageId (fst (process env (partEvent p delta) s)) =
           currentAssistantMessageId s"
    and "\<exists>st'. toolStates (fst (process env (partEvent p delta) s)) = [(c, st')] \<and>
               status st' \<noteq> Running"
    and "countOf isMessageComplete (fst (snd (process env (partEvent p delta) s))) = 0"
    using r by (simp_all add: process_tool_part[OF assms(1)] Let_def split: option.splits)
qed

text \<open>
  C1. A call of \<open>process\<close> that starts while a tracked tool has status \<open>running\<close> broadcasts no
  \<open>message_complete\<close>, whatever the event and the state, hence in every sequence of events.
  And in a turn with an assistant message and one running tool call: any number of idle
  events, then the completion of the tool, then one or more idle events broadcast
  \<open>message_complete\<close> exactly once.
\<close>

theorem message_complete_ordering:
  "(hasRunningTools s \<longrightarrow> countOf isMessageComplete (fst (snd (process env event s))) = 0) \<and>
   (truthy (currentAssistantMessageId s0) \<and> toolStates s0 = [(callID, st)] \<and> status st = Running \<and>
    endKey p \<notin> sentToolEvents s0 \<and>
    list_all isIdleCall before \<and> list_all isIdleCall after \<and> after \<noteq> [] \<and>
    acceptedToolPart env1 p callID tool \<and> isCompletion p \<and> summaryReadable p \<longrightarrow>
      countOf isMessageComplete
        (snd (run (before @ [Process env1 (partEvent p delta)] @ after) s0)) = 1)"
proof (intro conjI impI)
  assume "hasRunningTools s"
  then show "countOf isMessageComplete (fst (snd (process env event s))) = 0"
    by (rule process_running_no_complete)
next
  assume a: "truthy (currentAssistantMessageId s0) \<and> toolStates s0 = [(callID, st)] \<and>
    status st = Running \<and> endKey p \<notin> sentToolEvents s0 \<and>
    list_all isIdleCall before \<and> list_all isIdleCall after \<and> after \<noteq> [] \<and>
    acceptedToolPart env1 p callID tool \<and> isCompletion p \<and> summaryReadable p"
  define s1 where "s1 = fst (run before s0)"
  define s2 where "s2 = fst (process env1 (partEvent p delta) s1)"
  have running: "hasRunningTools s0"
    using a by (simp add: hasRunningTools_def)
  have b: "currentAssistantMessageId s1 = currentAssistantMessageId s0"
    "toolStates s1 = toolStates s0" "sentToolEvents s1 = sentToolEvents s0"
    "countOf isMessageComplete (snd (run before s0)) = 0"
    using idles_blocked[of before s0] a running by (simp_all add: s1_def)
  have c: "currentAssistantMessageId s2 = currentAssistantMessageId s0"
    "\<exists>st'. toolStates s2 = [(callID, st')] \<and> status st' \<noteq> Running"
    "countOf isMessageComplete (fst (snd (process env1 (partEvent p delta) s1))) = 0"
    using process_completion[of env1 p callID tool s1 st delta] a b by (simp_all add: s2_def)
  obtain first rest where after: "after = first # rest"
    using a by (cases after) auto
  then obtain env2 event2 where first: "first = Process env2 event2" and idle: "isIdleEvent event2"
    using a by (cases first) auto
  define s3 where "s3 = fst (process env2 event2 s2)"
  have nr: "\<not> hasRunningTools s2" "toolStates s2 \<noteq> []" "truthy (currentAssistantMessageId s2)"
    using c a by (auto simp: hasRunningTools_def)
  have d: "currentAssistantMessageId s3 = None"
    "countOf isMessageComplete (fst (snd (process env2 event2 s2))) = 1"
    using idle_completes[OF idle nr(3) nr(1), of env2] nr(2) by (simp_all add: s3_def)
  have e: "countOf isMessageComplete (snd (run rest s3)) = 0"
    using idles_blocked[of rest s3] a after d(1) by (simp add: truthy_def)
  show "countOf isMessageComplete
        (snd (run (before @ [Process env1 (partEvent p delta)] @ after) s0)) = 1"
    using b(4) c(3) d(2) e
    by (simp add: run_append run_Process after first s1_def s2_def s3_def del: run.simps)
qed


lemma exampleTurnStart_state:
  "fst (run exampleTurnStart initial_state) =
     \<lparr> currentAssistantMessageId = Some ''msg_2'', currentOpenCodeUserMessageId = None,
       toolStates = [(''call_1'', \<lparr> startEmitted = True, argsEmitted = True, endEmitted = False,
                                    status = Running \<rparr>)],
       runningToolWatch = [(''call_1'', \<lparr> toolName = ''bash'', startedAt = 1, lastUpdateAt = 1,
                                          lastStatusBroadcastAt = 0 \<rparr>)],
       sentToolEvents = {''prt_1:args'', ''prt_1:start''} \<rparr>"
  by (simp add: exampleTurnStart_def eval_defs)

theorem message_complete_ordering_witness:
  "countOf isMessageComplete
     (fst (snd (process (envAt 2) SessionIdle (fst (run exampleTurnStart initial_state))))) = 0 \<and>
   countOf isMessageComplete
     (snd (run ([Process (envAt 2) SessionIdle] @
                [Process (envAt 3) (partEvent (exampleToolPart ''completed'') None)] @
                [Process (envAt 4) SessionIdle, Process (envAt 5) (SessionStatus (Some (Some ''idle'')))])
             (fst (run exampleTurnStart initial_state)))) = 1"
proof -
  let ?p = "exampleToolPart ''completed''"
  let ?st = "\<lparr> startEmitted = True, argsEmitted = True, endEmitted = False, status = Running \<rparr>"
  have h: "acceptedToolPart (envAt 3) ?p ''call_1'' ''bash''" "summaryReadable ?p" "isCompletion ?p"
    "endKey ?p = ''prt_1:end''"
    by (simp_all add: acceptedToolPart_def passesPartChecks_def summaryReadable_def isCompletion_def
        eval_defs)
  have r: "hasRunningTools (fst (run exampleTurnStart initial_state))"
    by (simp add: exampleTurnStart_state hasRunningTools_def)
  show ?thesis
    using message_complete_ordering
            [of "fst (run exampleTurnStart initial_state)" "envAt 2" SessionIdle
                "fst (run exampleTurnStart initial_state)" "''call_1''" ?st ?p
                "[Process (envAt 2) SessionIdle]"
                "[Process (envAt 4) SessionIdle, Process (envAt 5) (SessionStatus (Some (Some ''idle'')))]"
                "envAt 3" "''bash''" None]
          h r
    by (simp add: exampleTurnStart_state isIdleEvent_def truthy_def)
qed

text \<open>What \<open>handleMessageUpdate\<close> can do, by the role of the message.\<close>

lemma handleMessageUpdate_cases:
  obtains (ignored) "handleMessageUpdate env props s = (s, [], None)"
  | (user) info where "props = Some (Some info)" "truthy (info_id info)"
      "info_role info = Some ''user''"
      "handleMessageUpdate env props s = (trackUserMessage (info_id info) s, [], None)"
  | (assistant) info errs where "props = Some (Some info)" "truthy (info_id info)"
      "info_role info = Some ''assistant''" "list_all isErrorBroadcast errs"
      "handleMessageUpdate env props s =
         (fst (ensureAssistantMessage env (info_id info) s),
          snd (ensureAssistantMessage env (info_id info) s) @ errs, None)"
  | (completed) info errs where "props = Some (Some info)" "truthy (info_id info)"
      "info_role info = Some ''assistant''" "list_all isErrorBroadcast errs"
      "handleMessageUpdate env props s =
         (fst (completeCurrentMessage (fst (ensureAssistantMessage env (info_id info) s))),
          snd (ensureAssistantMessage env (info_id info) s) @ errs @
          snd (completeCurrentMessage (fst (ensureAssistantMessage env (info_id info) s))), None)"
proof (cases "case props of None \<Rightarrow> None | Some info \<Rightarrow> info")
  case None
  then have "handleMessageUpdate env props s = (s, [], None)"
    by (simp add: handleMessageUpdate_def)
  then show ?thesis by (rule ignored)
next
  case (Some info)
  then have p: "props = Some (Some info)"
    by (simp split: option.splits)
  let ?sid = "case info_sessionID info of Some x \<Rightarrow> Some x | None \<Rightarrow> info_sessionId info"
  let ?r1 = "ensureAssistantMessage env (info_id info) s"
  define errs where "errs =
    (case getOpenCodeErrorMessage (info_error info) of
       None \<Rightarrow> []
     | Some errorMessage \<Rightarrow>
         if errorMessage = [] then []
         else if isAbortLikeOpenCodeError (info_error info) then []
         else [Broadcast (Error errorMessage)])"
  have e: "list_all isErrorBroadcast errs"
    by (simp add: errs_def split: option.splits)
  show ?thesis
  proof (cases "\<not> truthy (info_id info) \<or> \<not> truthy (info_role info) \<or>
      (truthy (getOpenCodeSessionId env) \<and> truthy ?sid \<and> ?sid \<noteq> getOpenCodeSessionId env)")
    case True
    then have "handleMessageUpdate env props s = (s, [], None)"
      by (auto simp: handleMessageUpdate_def p Let_def)
    then show ?thesis by (rule ignored)
  next
    case ok: False
    show ?thesis
    proof (cases "info_role info = Some ''user''")
      case True
      with ok have "handleMessageUpdate env props s = (trackUserMessage (info_id info) s, [], None)"
        by (auto simp: handleMessageUpdate_def p Let_def)
      with ok p True show ?thesis
        by (intro user[of info]) simp_all
    next
      case notuser: False
      show ?thesis
      proof (cases "info_role info = Some ''assistant''")
        case False
        with ok notuser have "handleMessageUpdate env props s = (s, [], None)"
          by (auto simp: handleMessageUpdate_def p Let_def)
        then show ?thesis by (rule ignored)
      next
        case asst: True
        have base: "handleMessageUpdate env props s =
            (if currentAssistantMessageId (fst ?r1) \<noteq> info_id info then (fst ?r1, snd ?r1, None)
             else (case info_time_completed info of
                     None \<Rightarrow> (fst ?r1, snd ?r1 @ errs, None)
                   | Some completed \<Rightarrow>
                       if completed = 0 then (fst ?r1, snd ?r1 @ errs, None)
                       else (fst (completeCurrentMessage (fst ?r1)),
                             snd ?r1 @ errs @ snd (completeCurrentMessage (fst ?r1)), None)))"
          using ok asst
          by (auto simp: handleMessageUpdate_def p Let_def case_prod_beta errs_def
              split: option.splits)
        show ?thesis
        proof (cases "currentAssistantMessageId (fst ?r1) \<noteq> info_id info")
          case True
          with base have "handleMessageUpdate env props s = (fst ?r1, snd ?r1 @ [], None)"
            by simp
          with ok p asst show ?thesis by (intro assistant[of info "[]"]) simp_all
        next
          case same: False
          show ?thesis
          proof (cases "case info_time_completed info of None \<Rightarrow> False | Some c \<Rightarrow> c \<noteq> 0")
            case False
            with base same have "handleMessageUpdate env props s = (fst ?r1, snd ?r1 @ errs, None)"
              by (simp split: option.splits)
            with ok p asst e show ?thesis by (intro assistant[of info errs]) simp_all
          next
            case True
            with base same have "handleMessageUpdate env props s =
                (fst (completeCurrentMessage (fst ?r1)),
                 snd ?r1 @ errs @ snd (completeCurrentMessage (fst ?r1)), None)"
              by (simp split: option.splits)
            with ok p asst e show ?thesis by (intro completed[of info errs]) simp_all
          qed
        qed
      qed
    qed
  qed
qed

text \<open>What \<open>handlePartUpdate\<close> can do, by the kind of the part.\<close>

lemma handlePartUpdate_cases:
  obtains (thrown) "props = None" "handlePartUpdate env props s = (s, [], Some TypeError)"
  | (dropped) "handlePartUpdate env props s = (s, [], None)"
  | (textPart) pr p where "props = Some pr" "pup_part pr = Some p" "acceptedTextPart env p"
      "handlePartUpdate env props s = handleTextPart env p (pup_delta pr) s"
  | (toolPart) pr p c t where "props = Some pr" "pup_part pr = Some p" "acceptedToolPart env p c t"
      "handlePartUpdate env props s = handleToolPart env p c t s"
proof (cases props)
  case None
  then show ?thesis by (intro thrown) (simp_all add: handlePartUpdate_def)
next
  case (Some pr)
  show ?thesis
  proof (cases "pup_part pr")
    case None
    with Some show ?thesis by (intro dropped) (simp add: handlePartUpdate_def)
  next
    case part: (Some p)
    show ?thesis
    proof (cases "passesPartChecks env p")
      case False
      with Some part show ?thesis
        by (intro dropped) (auto simp: handlePartUpdate_def passesPartChecks_def)
    next
      case ok: True
      show ?thesis
      proof (cases "part_type p = Some ''text''")
        case True
        with Some part ok show ?thesis
          by (intro textPart[of pr p])
             (auto simp: handlePartUpdate_def passesPartChecks_def acceptedTextPart_def)
      next
        case nt: False
        show ?thesis
        proof (cases "\<exists>c t. part_callID p = Some c \<and> c \<noteq> [] \<and> part_tool p = Some t \<and> t \<noteq> []")
          case True
          then obtain c t where "part_callID p = Some c" "c \<noteq> []" "part_tool p = Some t" "t \<noteq> []"
            by blast
          with Some part ok nt show ?thesis
            by (intro toolPart[of pr p c t])
               (auto simp: handlePartUpdate_def passesPartChecks_def acceptedToolPart_def)
        next
          case False
          with Some part ok nt show ?thesis
            by (intro dropped)
               (auto simp: handlePartUpdate_def passesPartChecks_def split: option.splits)
        qed
      qed
    qed
  qed
qed

text \<open>The text handler: the echo of the user message, or one text broadcast at most.\<close>

lemma handleTextPart_cases:
  obtains (echo) "part_messageID p = currentOpenCodeUserMessageId (trackUserMessage (part_messageID p) s)"
      "handleTextPart env p d s = (trackUserMessage (part_messageID p) s, [], None)"
  | (assistant) texts where
      "part_messageID p \<noteq> currentOpenCodeUserMessageId (trackUserMessage (part_messageID p) s)"
      "texts = [] \<or>
       texts = [Broadcast (Token
                  (currentAssistantMessageId
                     (fst (ensureAssistantMessage env (part_messageID p)
                             (trackUserMessage (part_messageID p) s))))
                  (part_id p) d)] \<or>
       texts = [Broadcast (TextPartComplete
                  (currentAssistantMessageId
                     (fst (ensureAssistantMessage env (part_messageID p)
                             (trackUserMessage (part_messageID p) s))))
                  (part_id p) (part_text p))]"
      "handleTextPart env p d s =
         (fst (ensureAssistantMessage env (part_messageID p) (trackUserMessage (part_messageID p) s)),
          snd (ensureAssistantMessage env (part_messageID p) (trackUserMessage (part_messageID p) s)) @
          texts, None)"
proof (cases "part_messageID p = currentOpenCodeUserMessageId (trackUserMessage (part_messageID p) s)")
  case True
  then show ?thesis by (intro echo) (simp_all add: handleTextPart_def Let_def)
next
  case False
  let ?r1 = "ensureAssistantMessage env (part_messageID p) (trackUserMessage (part_messageID p) s)"
  let ?texts = "if truthy d then [Broadcast (Token (currentAssistantMessageId (fst ?r1)) (part_id p) d)]
     else if truthy (part_text p)
     then [Broadcast (TextPartComplete (currentAssistantMessageId (fst ?r1)) (part_id p) (part_text p))]
     else []"
  have "handleTextPart env p d s = (fst ?r1, snd ?r1 @ ?texts, None)"
    using False by (simp add: handleTextPart_def Let_def case_prod_beta)
  with False show ?thesis
    by (intro assistant[of ?texts]) simp_all
qed

subsection \<open>The keys of the broadcasts already sent\<close>

lemma complete_quiet:
  "countOf isMessageComplete (snd (completeCurrentMessage s)) = 0 \<Longrightarrow>
   completeCurrentMessage s = (s, [])"
  by (auto simp: completeCurrentMessage_def Let_def split: if_splits)

lemma handleTextPart_sent [simp]:
  "sentToolEvents (fst (handleTextPart env p d s)) = sentToolEvents s"
  "toolStates (fst (handleTextPart env p d s)) = toolStates s"
  by (cases rule: handleTextPart_cases[of p s env d]; simp)+

lemma handleToolPart_sent:
  "sentToolEvents s \<subseteq> sentToolEvents (fst (handleToolPart env p c t s))"
proof -
  let ?s1 = "fst (ensureAssistantMessage env (part_messageID p) s)"
  let ?s2 = "fst (toolStartStep env p c t ?s1)"
  let ?r3 = "toolMetadataStep env p c t ?s2"
  let ?s4 = "fst (toolCompletionStep p c t (fst ?r3))"
  have r: "fst (handleToolPart env p c t s) =
             (case snd (snd ?r3) of Some err \<Rightarrow> fst ?r3 | None \<Rightarrow> ?s4)"
    by (simp add: handleToolPart_steps Let_def split: option.splits)
  have "sentToolEvents s = sentToolEvents ?s1"
    by simp
  also have "\<dots> \<subseteq> sentToolEvents ?s2"
    by (rule toolStartStep_sent(1))
  also have "\<dots> \<subseteq> sentToolEvents (fst ?r3)"
    by (rule toolMetadataStep_sent)
  finally have a: "sentToolEvents s \<subseteq> sentToolEvents (fst ?r3)" .
  also have "\<dots> \<subseteq> sentToolEvents ?s4"
    by (rule toolCompletionStep_sent(1))
  finally have b: "sentToolEvents s \<subseteq> sentToolEvents ?s4" .
  show ?thesis
    unfolding r using a b by (cases "snd (snd ?r3)") simp_all
qed

lemma handlePartUpdate_sent:
  "sentToolEvents s \<subseteq> sentToolEvents (fst (handlePartUpdate env props s))"
proof (cases rule: handlePartUpdate_cases[of props env s])
  case (toolPart pr p c t)
  then show ?thesis by (simp add: handleToolPart_sent)
qed simp_all

lemma handleMessageUpdate_quiet:
  assumes "countOf isMessageComplete (fst (snd (handleMessageUpdate env props s))) = 0"
  shows "sentToolEvents (fst (handleMessageUpdate env props s)) = sentToolEvents s"
proof (cases rule: handleMessageUpdate_cases[of env props s])
  case (completed info errs)
  let ?s1 = "fst (ensureAssistantMessage env (info_id info) s)"
  from assms completed(5) have "countOf isMessageComplete (snd (completeCurrentMessage ?s1)) = 0"
    by simp
  then have "completeCurrentMessage ?s1 = (?s1, [])"
    by (rule complete_quiet)
  with completed(5) show ?thesis by simp
qed simp_all

lemma processTry_sent:
  assumes "countOf isMessageComplete (fst (snd (processTry env event s))) = 0"
  shows "sentToolEvents s \<subseteq> sentToolEvents (fst (processTry env event s))"
proof -
  let ?h = "fst (maybeBroadcastToolProgressHeartbeat (now_heartbeat env) s)"
  show ?thesis
  proof (cases event)
    case (MessageUpdated props)
    with assms handleMessageUpdate_quiet[of env props ?h] show ?thesis
      by (simp add: processTry_proj Let_def)
  next
    case (MessagePartUpdated props)
    with handlePartUpdate_sent[of ?h] show ?thesis
      by (simp add: processTry_proj Let_def)
  next
    case SessionIdle
    with assms have "countOf isMessageComplete (snd (completeCurrentMessage ?h)) = 0"
      by (simp add: processTry_proj Let_def handleSessionIdle_def case_prod_beta)
    then have "completeCurrentMessage ?h = (?h, [])"
      by (rule complete_quiet)
    with SessionIdle show ?thesis
      by (simp add: processTry_proj Let_def handleSessionIdle_def)
  next
    case (SessionStatus props)
    show ?thesis
    proof (cases "props = Some (Some ''idle'')")
      case True
      with assms SessionStatus
      have "countOf isMessageComplete (snd (completeCurrentMessage ?h)) = 0"
        by (simp add: processTry_proj Let_def handleSessionStatus_def case_prod_beta)
      then have "completeCurrentMessage ?h = (?h, [])"
        by (rule complete_quiet)
      with SessionStatus True show ?thesis
        by (simp add: processTry_proj Let_def handleSessionStatus_def)
    next
      case False
      with SessionStatus show ?thesis
        by (auto simp: processTry_proj Let_def handleSessionStatus_def split: option.splits)
    qed
  next
    case (SessionError props)
    then show ?thesis
      by (simp add: processTry_proj Let_def handleSessionError_def split: option.splits)
  qed (simp_all add: processTry_proj Let_def)
qed

lemma process_sent:
  assumes "countOf isMessageComplete (fst (snd (process env event s))) = 0"
  shows "sentToolEvents s \<subseteq> sentToolEvents (fst (process env event s))"
  using assms processTry_sent[of env event s] by (simp add: process_count process_proj)

lemma run_sent:
  assumes "list_all isProcess calls" and "countOf isMessageComplete (snd (run calls s)) = 0"
  shows "sentToolEvents s \<subseteq> sentToolEvents (fst (run calls s))"
  using assms
proof (induction calls arbitrary: s)
  case Nil
  show ?case by simp
next
  case (Cons c calls)
  then obtain env event where c: "c = Process env event"
    by (cases c) auto
  from Cons.prems have q: "countOf isMessageComplete (fst (snd (process env event s))) = 0"
    "countOf isMessageComplete (snd (run calls (fst (process env event s)))) = 0"
    by (simp_all add: c run_Process del: run.simps)
  from process_sent[OF q(1)] Cons.IH[OF _ q(2)] Cons.prems(1) show ?case
    by (auto simp: c run_Process simp del: run.simps)
qed

subsection \<open>Deliveries of a tool part\<close>

lemma handleToolPart_first:
  assumes "summaryReadable p"
  shows "startKey p \<in> sentToolEvents (fst (handleToolPart env p c t s))"
    and "partArgs p \<noteq> [] \<Longrightarrow> argsKey p \<in> sentToolEvents (fst (handleToolPart env p c t s))"
    and "isCompletion p \<Longrightarrow> endKey p \<in> sentToolEvents (fst (handleToolPart env p c t s))"
    and "countOf isToolStart (fst (snd (handleToolPart env p c t s))) =
           (if startKey p \<notin> sentToolEvents s \<or> (partArgs p \<noteq> [] \<and> argsKey p \<notin> sentToolEvents s)
            then 1 else 0)"
    and "countOf isToolEnd (fst (snd (handleToolPart env p c t s))) =
           (if isCompletion p \<and> endKey p \<notin> sentToolEvents s then 1 else 0)"
proof -
  let ?s1 = "fst (ensureAssistantMessage env (part_messageID p) s)"
  let ?s2 = "fst (toolStartStep env p c t ?s1)"
  let ?s3 = "fst (toolMetadataStep env p c t ?s2)"
  let ?s4 = "fst (toolCompletionStep p c t ?s3)"
  have r: "handleToolPart env p c t s =
      (?s4, snd (ensureAssistantMessage env (part_messageID p) s) @
            snd (toolStartStep env p c t ?s1) @ fst (snd (toolMetadataStep env p c t ?s2)) @
            snd (toolCompletionStep p c t ?s3), None)"
    using assms by (simp add: handleToolPart_steps Let_def)
  have sub: "sentToolEvents ?s2 \<subseteq> sentToolEvents ?s4"
    using toolMetadataStep_sent[of ?s2 env p c t] toolCompletionStep_sent(1)[of ?s3 p c t]
    by blast
  have s1: "sentToolEvents ?s1 = sentToolEvents s"
    by simp
  show "startKey p \<in> sentToolEvents (fst (handleToolPart env p c t s))"
    using sub toolStartStep_proj(3)[of p env c t ?s1] unfolding r by auto
  show "argsKey p \<in> sentToolEvents (fst (handleToolPart env p c t s))" if "partArgs p \<noteq> []"
    using sub toolStartStep_sent(2)[OF that, of env c t ?s1] unfolding r by auto
  show "endKey p \<in> sentToolEvents (fst (handleToolPart env p c t s))" if "isCompletion p"
    using toolCompletionStep_sent(2)[OF that, of c t ?s3] unfolding r by simp
  have ts: "countOf isToolStart (snd (toolStartStep env p c t ?s1)) =
           (if startKey p \<notin> sentToolEvents s \<or> (partArgs p \<noteq> [] \<and> argsKey p \<notin> sentToolEvents s)
            then 1 else 0)"
    by (auto simp: toolStartStep_def Let_def)
  show "countOf isToolStart (fst (snd (handleToolPart env p c t s))) =
           (if startKey p \<notin> sentToolEvents s \<or> (partArgs p \<noteq> [] \<and> argsKey p \<notin> sentToolEvents s)
            then 1 else 0)"
    unfolding r using ts by simp
  have e3: "endKey p \<in> sentToolEvents ?s3 \<longleftrightarrow> endKey p \<in> sentToolEvents s"
    by simp
  have te: "countOf isToolEnd (snd (toolCompletionStep p c t ?s3)) =
           (if isCompletion p \<and> endKey p \<notin> sentToolEvents s then 1 else 0)"
    using e3 toolCompletionStep_fresh(1)[of p ?s3 c t] toolCompletionStep_seen[of p ?s3 c t]
    by (cases "isCompletion p \<and> endKey p \<notin> sentToolEvents s") auto
  show "countOf isToolEnd (fst (snd (handleToolPart env p c t s))) =
           (if isCompletion p \<and> endKey p \<notin> sentToolEvents s then 1 else 0)"
    unfolding r using te by simp
qed

lemma handleToolPart_again:
  assumes "startKey p \<in> sentToolEvents s"
    and "partArgs p \<noteq> [] \<longrightarrow> argsKey p \<in> sentToolEvents s"
    and "isCompletion p \<longrightarrow> endKey p \<in> sentToolEvents s"
  shows "countOf isToolStart (fst (snd (handleToolPart env p c t s))) = 0"
    and "countOf isToolEnd (fst (snd (handleToolPart env p c t s))) = 0"
proof -
  let ?s1 = "fst (ensureAssistantMessage env (part_messageID p) s)"
  have a: "toolStartStep env p c t ?s1 = (?s1, [])"
    using assms(1,2) by (intro toolStartStep_seen) auto
  have b: "toolCompletionStep p c t (fst (toolMetadataStep env p c t ?s1)) =
           (fst (toolMetadataStep env p c t ?s1), [])"
    using assms(3) by (intro toolCompletionStep_seen) auto
  show "countOf isToolStart (fst (snd (handleToolPart env p c t s))) = 0"
    and "countOf isToolEnd (fst (snd (handleToolPart env p c t s))) = 0"
    by (simp_all add: handleToolPart_steps Let_def a b split: option.splits)
qed

lemma process_part_again:
  assumes "startKey p \<in> sentToolEvents s"
    and "partArgs p \<noteq> [] \<longrightarrow> argsKey p \<in> sentToolEvents s"
    and "isCompletion p \<longrightarrow> endKey p \<in> sentToolEvents s"
  shows "countOf isToolStart (fst (snd (process env (partEvent p delta) s))) = 0"
    and "countOf isToolEnd (fst (snd (process env (partEvent p delta) s))) = 0"
proof -
  let ?h = "fst (maybeBroadcastToolProgressHeartbeat (now_heartbeat env) s)"
  have h: "startKey p \<in> sentToolEvents ?h" "partArgs p \<noteq> [] \<longrightarrow> argsKey p \<in> sentToolEvents ?h"
    "isCompletion p \<longrightarrow> endKey p \<in> sentToolEvents ?h"
    using assms by simp_all
  have "countOf isToolStart (fst (snd (processTry env (partEvent p delta) s))) = 0 \<and>
        countOf isToolEnd (fst (snd (processTry env (partEvent p delta) s))) = 0"
    using handleToolPart_again[OF h]
    by (simp add: processTry_proj partEvent_def handlePartUpdate_def Let_def split: option.splits)
  then show "countOf isToolStart (fst (snd (process env (partEvent p delta) s))) = 0"
    and "countOf isToolEnd (fst (snd (process env (partEvent p delta) s))) = 0"
    by (simp_all add: process_count)
qed

lemma process_tool_first:
  assumes "acceptedToolPart env p c t" and "summaryReadable p"
  shows "startKey p \<in> sentToolEvents (fst (process env (partEvent p delta) s))"
    and "partArgs p \<noteq> [] \<Longrightarrow> argsKey p \<in> sentToolEvents (fst (process env (partEvent p delta) s))"
    and "isCompletion p \<Longrightarrow> endKey p \<in> sentToolEvents (fst (process env (partEvent p delta) s))"
    and "countOf isToolStart (fst (snd (process env (partEvent p delta) s))) =
           (if startKey p \<notin> sentToolEvents s \<or> (partArgs p \<noteq> [] \<and> argsKey p \<notin> sentToolEvents s)
            then 1 else 0)"
    and "countOf isToolEnd (fst (snd (process env (partEvent p delta) s))) =
           (if isCompletion p \<and> endKey p \<notin> sentToolEvents s then 1 else 0)"
proof -
  let ?h = "maybeBroadcastToolProgressHeartbeat (now_heartbeat env) s"
  let ?r = "handleToolPart env p c t (fst ?h)"
  have t: "snd (snd ?r) = None"
    using assms(2) by (simp add: handleToolPart_steps Let_def)
  have r: "process env (partEvent p delta) s = (fst ?r, snd ?h @ fst (snd ?r), None)"
    by (simp add: process_tool_part[OF assms(1)] Let_def t)
  note f = handleToolPart_first[OF assms(2), of env c t "fst ?h"]
  show "startKey p \<in> sentToolEvents (fst (process env (partEvent p delta) s))"
    using f(1) by (simp add: r)
  show "argsKey p \<in> sentToolEvents (fst (process env (partEvent p delta) s))" if "partArgs p \<noteq> []"
    using f(2)[OF that] by (simp add: r)
  show "endKey p \<in> sentToolEvents (fst (process env (partEvent p delta) s))" if "isCompletion p"
    using f(3)[OF that] by (simp add: r)
  show "countOf isToolStart (fst (snd (process env (partEvent p delta) s))) =
           (if startKey p \<notin> sentToolEvents s \<or> (partArgs p \<noteq> [] \<and> argsKey p \<notin> sentToolEvents s)
            then 1 else 0)"
    using f(4) by (simp add: r)
  show "countOf isToolEnd (fst (snd (process env (partEvent p delta) s))) =
           (if isCompletion p \<and> endKey p \<notin> sentToolEvents s then 1 else 0)"
    using f(5) by (simp add: r)
qed

text \<open>
  C2, as stated, fails when the turn completes between two deliveries: the completion
  clears the keys of the broadcasts already sent, and the redelivered completed part is
  broadcast again, \<open>tool_start\<close> and \<open>tool_end\<close> both.
\<close>

theorem redelivery_after_completion:
  "countOf isToolEnd
     (snd (run [Process (envAt 0) (partEvent (exampleToolPart ''completed'') None),
                Process (envAt 1) SessionIdle,
                Process (envAt 2) (partEvent (exampleToolPart ''completed'') None)]
             initial_state)) = 2"
  by (simp add: eval_defs)

text \<open>
  C2, amended. Take a tool part that \<open>handlePartUpdate\<close> accepts and whose metadata summary
  can be read. Its delivery broadcasts one \<open>tool_start\<close> if its start key, or its
  arguments key when it has arguments, was not sent yet, and none otherwise; it broadcasts
  one \<open>tool_end\<close> if it is completed (or in error) and its end key was not sent yet, and none
  otherwise. After it, as long as no \<open>message_complete\<close> is broadcast, a redelivery of
  the part (the same part id, in no later phase) broadcasts neither \<open>tool_start\<close> nor
  \<open>tool_end\<close>, whatever is processed in between.
\<close>

theorem tool_events_once_per_turn:
  "acceptedToolPart env1 p callID tool \<and> summaryReadable p \<and>
   list_all isProcess between \<and>
   countOf isMessageComplete (snd (run between (fst (process env1 (partEvent p delta) s)))) = 0 \<and>
   part_id p' = part_id p \<and> (partArgs p' \<noteq> [] \<longrightarrow> partArgs p \<noteq> []) \<and>
   (isCompletion p' \<longrightarrow> isCompletion p) \<longrightarrow>
     countOf isToolStart (fst (snd (process env1 (partEvent p delta) s))) =
       (if startKey p \<notin> sentToolEvents s \<or> (partArgs p \<noteq> [] \<and> argsKey p \<notin> sentToolEvents s)
        then 1 else 0) \<and>
     countOf isToolEnd (fst (snd (process env1 (partEvent p delta) s))) =
       (if isCompletion p \<and> endKey p \<notin> sentToolEvents s then 1 else 0) \<and>
     countOf isToolStart
       (fst (snd (process env2 (partEvent p' delta')
                    (fst (run between (fst (process env1 (partEvent p delta) s))))))) = 0 \<and>
     countOf isToolEnd
       (fst (snd (process env2 (partEvent p' delta')
                    (fst (run between (fst (process env1 (partEvent p delta) s))))))) = 0"
proof (intro impI)
  assume a: "acceptedToolPart env1 p callID tool \<and> summaryReadable p \<and>
   list_all isProcess between \<and>
   countOf isMessageComplete (snd (run between (fst (process env1 (partEvent p delta) s)))) = 0 \<and>
   part_id p' = part_id p \<and> (partArgs p' \<noteq> [] \<longrightarrow> partArgs p \<noteq> []) \<and>
   (isCompletion p' \<longrightarrow> isCompletion p)"
  define s1 where "s1 = fst (process env1 (partEvent p delta) s)"
  define s2 where "s2 = fst (run between s1)"
  note f = process_tool_first[of env1 p callID tool delta s]
  have sub: "sentToolEvents s1 \<subseteq> sentToolEvents s2"
    unfolding s2_def using a by (intro run_sent) (simp_all add: s1_def)
  have k: "startKey p' = startKey p" "argsKey p' = argsKey p" "endKey p' = endKey p"
    using a by (simp_all add: startKey_def argsKey_def endKey_def)
  have seen: "startKey p' \<in> sentToolEvents s2"
    "partArgs p' \<noteq> [] \<longrightarrow> argsKey p' \<in> sentToolEvents s2"
    "isCompletion p' \<longrightarrow> endKey p' \<in> sentToolEvents s2"
    using a sub f(1-3) unfolding k s1_def by auto
  show "countOf isToolStart (fst (snd (process env1 (partEvent p delta) s))) =
       (if startKey p \<notin> sentToolEvents s \<or> (partArgs p \<noteq> [] \<and> argsKey p \<notin> sentToolEvents s)
        then 1 else 0) \<and>
     countOf isToolEnd (fst (snd (process env1 (partEvent p delta) s))) =
       (if isCompletion p \<and> endKey p \<notin> sentToolEvents s then 1 else 0) \<and>
     countOf isToolStart
       (fst (snd (process env2 (partEvent p' delta')
                    (fst (run between (fst (process env1 (partEvent p delta) s))))))) = 0 \<and>
     countOf isToolEnd
       (fst (snd (process env2 (partEvent p' delta')
                    (fst (run between (fst (process env1 (partEvent p delta) s))))))) = 0"
    using a f(4,5) process_part_again[OF seen, of env2 delta']
    unfolding s1_def s2_def by simp
qed

theorem tool_events_once_per_turn_witness:
  "countOf isToolStart
     (fst (snd (process (envAt 0) (partEvent (exampleToolPart ''completed'') None) initial_state))) = 1 \<and>
   countOf isToolEnd
     (fst (snd (process (envAt 0) (partEvent (exampleToolPart ''completed'') None) initial_state))) = 1 \<and>
   countOf isToolStart
     (fst (snd (process (envAt 2) (partEvent (exampleToolPart ''completed'') None)
                  (fst (run [Process (envAt 1) ServerHeartbeat]
                          (fst (process (envAt 0) (partEvent (exampleToolPart ''completed'') None)
                                  initial_state))))))) = 0 \<and>
   countOf isToolEnd
     (fst (snd (process (envAt 2) (partEvent (exampleToolPart ''completed'') None)
                  (fst (run [Process (envAt 1) ServerHeartbeat]
                          (fst (process (envAt 0) (partEvent (exampleToolPart ''completed'') None)
                                  initial_state))))))) = 0"
proof -
  let ?p = "exampleToolPart ''completed''"
  have h: "acceptedToolPart (envAt 0) ?p ''call_1'' ''bash''" "summaryReadable ?p"
    "isCompletion ?p" "partArgs ?p \<noteq> []"
    by (simp_all add: acceptedToolPart_def passesPartChecks_def summaryReadable_def isCompletion_def
        eval_defs)
  have q: "countOf isMessageComplete
      (snd (run [Process (envAt 1) ServerHeartbeat]
              (fst (process (envAt 0) (partEvent ?p None) initial_state)))) = 0"
    by (simp add: eval_defs)
  have i: "sentToolEvents initial_state = {}"
    by (simp add: initial_state_def)
  show ?thesis
    using tool_events_once_per_turn
            [of "envAt 0" ?p "''call_1''" "''bash''" "[Process (envAt 1) ServerHeartbeat]"
                None initial_state ?p "envAt 2" None]
          h q
    by (simp add: i)
qed

subsection \<open>The slot of the current assistant message\<close>

lemma error_counts:
  assumes "list_all isErrorBroadcast errs"
  shows "countOf isMessage errs = 0"
    and "countOf isMessageComplete errs = 0"
    and "countOf isTextBroadcast errs = 0"
    and "countOf (carriesMessageId m) errs = 0"
    and "countOf (isToolUpdateOf k) errs = 0"
  using assms by (induction errs; auto elim: isErrorBroadcast.elims)+

lemma handleToolPart_slot:
  "currentAssistantMessageId (fst (handleToolPart env p c t s)) =
     currentAssistantMessageId (fst (ensureAssistantMessage env (part_messageID p) s))"
  "currentOpenCodeUserMessageId (fst (handleToolPart env p c t s)) = currentOpenCodeUserMessageId s"
  "countOf isMessage (fst (snd (handleToolPart env p c t s))) =
     countOf isMessage (snd (ensureAssistantMessage env (part_messageID p) s))"
  by (simp_all add: handleToolPart_steps Let_def split: option.splits)

lemma ensureAssistantMessage_slot:
  assumes "truthy m"
  shows "if truthy (currentAssistantMessageId s)
         then currentAssistantMessageId (fst (ensureAssistantMessage env m s)) =
                currentAssistantMessageId s \<and>
              countOf isMessage (snd (ensureAssistantMessage env m s)) = 0
         else truthy (currentAssistantMessageId (fst (ensureAssistantMessage env m s))) \<and>
              countOf isMessage (snd (ensureAssistantMessage env m s)) = 1"
  using assms by (simp add: ensureAssistantMessage_def)

lemma handleMessageUpdate_slot:
  assumes "countOf isMessageComplete (fst (snd (handleMessageUpdate env props s))) = 0"
  shows "if truthy (currentAssistantMessageId s)
         then currentAssistantMessageId (fst (handleMessageUpdate env props s)) =
                currentAssistantMessageId s \<and>
              countOf isMessage (fst (snd (handleMessageUpdate env props s))) = 0
         else (truthy (currentAssistantMessageId (fst (handleMessageUpdate env props s))) \<and>
               countOf isMessage (fst (snd (handleMessageUpdate env props s))) = 1) \<or>
              (currentAssistantMessageId (fst (handleMessageUpdate env props s)) =
                 currentAssistantMessageId s \<and>
               countOf isMessage (fst (snd (handleMessageUpdate env props s))) = 0)"
proof (cases rule: handleMessageUpdate_cases[of env props s])
  case ignored
  then show ?thesis by simp
next
  case (user info)
  then show ?thesis by simp
next
  case (assistant info errs)
  with ensureAssistantMessage_slot[OF assistant(2), of s env] error_counts(1)[OF assistant(4)]
  show ?thesis by (simp split: if_splits)
next
  case (completed info errs)
  let ?s1 = "fst (ensureAssistantMessage env (info_id info) s)"
  from assms completed(5) have "countOf isMessageComplete (snd (completeCurrentMessage ?s1)) = 0"
    by simp
  then have "completeCurrentMessage ?s1 = (?s1, [])"
    by (rule complete_quiet)
  with completed ensureAssistantMessage_slot[OF completed(2), of s env]
    error_counts(1)[OF completed(4)]
  show ?thesis by (simp split: if_splits)
qed

lemma handlePartUpdate_slot:
  "if truthy (currentAssistantMessageId s)
   then currentAssistantMessageId (fst (handlePartUpdate env props s)) =
          currentAssistantMessageId s \<and>
        countOf isMessage (fst (snd (handlePartUpdate env props s))) = 0
   else (truthy (currentAssistantMessageId (fst (handlePartUpdate env props s))) \<and>
         countOf isMessage (fst (snd (handlePartUpdate env props s))) = 1) \<or>
        (currentAssistantMessageId (fst (handlePartUpdate env props s)) =
           currentAssistantMessageId s \<and>
         countOf isMessage (fst (snd (handlePartUpdate env props s))) = 0)"
proof (cases rule: handlePartUpdate_cases[of props env s])
  case thrown
  then show ?thesis by simp
next
  case dropped
  then show ?thesis by simp
next
  case (textPart pr p)
  then have m: "truthy (part_messageID p)"
    by (simp add: acceptedTextPart_def passesPartChecks_def)
  show ?thesis
  proof (cases rule: handleTextPart_cases[of p s env "pup_delta pr"])
    case echo
    with textPart show ?thesis by simp
  next
    case (assistant texts)
    from assistant(2) have "countOf isMessage texts = 0"
      by auto
    with textPart assistant(3)
      ensureAssistantMessage_slot[OF m, of "trackUserMessage (part_messageID p) s" env]
    show ?thesis by (simp split: if_splits)
  qed
next
  case (toolPart pr p c t)
  then have m: "truthy (part_messageID p)"
    by (simp add: acceptedToolPart_def passesPartChecks_def)
  from toolPart ensureAssistantMessage_slot[OF m, of s env] show ?thesis
    by (simp add: handleToolPart_slot split: if_splits)
qed

lemma process_slot:
  assumes "countOf isMessageComplete (fst (snd (process env event s))) = 0"
  shows "if truthy (currentAssistantMessageId s)
         then currentAssistantMessageId (fst (process env event s)) = currentAssistantMessageId s \<and>
              countOf isMessage (fst (snd (process env event s))) = 0
         else (truthy (currentAssistantMessageId (fst (process env event s))) \<and>
               countOf isMessage (fst (snd (process env event s))) = 1) \<or>
              (currentAssistantMessageId (fst (process env event s)) = currentAssistantMessageId s \<and>
               countOf isMessage (fst (snd (process env event s))) = 0)"
proof -
  let ?h = "fst (maybeBroadcastToolProgressHeartbeat (now_heartbeat env) s)"
  have q: "countOf isMessageComplete (fst (snd (processTry env event s))) = 0"
    using assms by (simp add: process_count)
  have "if truthy (currentAssistantMessageId s)
         then currentAssistantMessageId (fst (processTry env event s)) = currentAssistantMessageId s \<and>
              countOf isMessage (fst (snd (processTry env event s))) = 0
         else (truthy (currentAssistantMessageId (fst (processTry env event s))) \<and>
               countOf isMessage (fst (snd (processTry env event s))) = 1) \<or>
              (currentAssistantMessageId (fst (processTry env event s)) = currentAssistantMessageId s \<and>
               countOf isMessage (fst (snd (processTry env event s))) = 0)"
  proof (cases event)
    case (MessageUpdated props)
    with q handleMessageUpdate_slot[of env props ?h] show ?thesis
      by (simp add: processTry_proj Let_def split: if_splits)
  next
    case (MessagePartUpdated props)
    with handlePartUpdate_slot[of ?h env props] show ?thesis
      by (simp add: processTry_proj Let_def split: if_splits)
  next
    case SessionIdle
    with q have "countOf isMessageComplete (snd (completeCurrentMessage ?h)) = 0"
      by (simp add: processTry_proj Let_def handleSessionIdle_def case_prod_beta)
    then have "completeCurrentMessage ?h = (?h, [])"
      by (rule complete_quiet)
    with SessionIdle show ?thesis
      by (simp add: processTry_proj Let_def handleSessionIdle_def)
  next
    case (SessionStatus props)
    show ?thesis
    proof (cases "props = Some (Some ''idle'')")
      case True
      with q SessionStatus
      have "countOf isMessageComplete (snd (completeCurrentMessage ?h)) = 0"
        by (simp add: processTry_proj Let_def handleSessionStatus_def case_prod_beta)
      then have "completeCurrentMessage ?h = (?h, [])"
        by (rule complete_quiet)
      with SessionStatus True show ?thesis
        by (simp add: processTry_proj Let_def handleSessionStatus_def)
    next
      case False
      with SessionStatus show ?thesis
        by (auto simp: processTry_proj Let_def handleSessionStatus_def split: option.splits)
    qed
  next
    case (SessionError props)
    then show ?thesis
      by (simp add: processTry_proj Let_def handleSessionError_def split: option.splits)
  qed (simp_all add: processTry_proj Let_def)
  then show ?thesis
    by (simp add: process_count process_proj split: if_splits)
qed

lemma run_slot:
  assumes "list_all isProcess calls" and "countOf isMessageComplete (snd (run calls s)) = 0"
  shows "if truthy (currentAssistantMessageId s)
         then currentAssistantMessageId (fst (run calls s)) = currentAssistantMessageId s \<and>
              countOf isMessage (snd (run calls s)) = 0
         else (truthy (currentAssistantMessageId (fst (run calls s))) \<and>
               countOf isMessage (snd (run calls s)) = 1) \<or>
              (currentAssistantMessageId (fst (run calls s)) = currentAssistantMessageId s \<and>
               countOf isMessage (snd (run calls s)) = 0)"
  using assms
proof (induction calls arbitrary: s)
  case Nil
  show ?case by simp
next
  case (Cons c calls)
  then obtain env event where c: "c = Process env event"
    by (cases c) auto
  let ?s1 = "fst (process env event s)"
  from Cons.prems have q: "countOf isMessageComplete (fst (snd (process env event s))) = 0"
    "countOf isMessageComplete (snd (run calls ?s1)) = 0" "list_all isProcess calls"
    by (simp_all add: c run_Process del: run.simps)
  from process_slot[OF q(1)] Cons.IH[OF q(3) q(2)] show ?case
    by (auto simp: c run_Process simp del: run.simps split: if_splits)
qed

lemma ensureAssistantMessage_creates:
  "\<not> truthy (currentAssistantMessageId s) \<Longrightarrow>
   Broadcast (Message m (now_createdAt env)) \<in> set (snd (ensureAssistantMessage env m s))"
  by (simp add: ensureAssistantMessage_def)

lemma process_out_subset:
  "set (fst (snd (processTry env event s))) \<subseteq> set (fst (snd (process env event s)))"
  by (auto simp: process_def Let_def case_prod_beta split: option.splits)

lemma process_assistant_update_creates:
  assumes "\<not> truthy (currentAssistantMessageId s)" and "passesMessageChecks env info"
    and "info_role info = Some ''assistant''"
  shows "Broadcast (Message (info_id info) (now_createdAt env)) \<in>
           set (fst (snd (process env (messageEvent info) s)))"
proof -
  let ?h = "fst (maybeBroadcastToolProgressHeartbeat (now_heartbeat env) s)"
  have c: "\<not> truthy (currentAssistantMessageId ?h)"
    using assms(1) by simp
  have "\<exists>rest. fst (snd (handleMessageUpdate env (Some (Some info)) ?h)) =
          snd (ensureAssistantMessage env (info_id info) ?h) @ rest"
    using assms(2,3)
    by (auto simp: handleMessageUpdate_def passesMessageChecks_def Let_def case_prod_beta
        split: option.splits)
  with ensureAssistantMessage_creates[OF c, of "info_id info" env]
  have "Broadcast (Message (info_id info) (now_createdAt env)) \<in>
          set (fst (snd (processTry env (messageEvent info) s)))"
    by (auto simp: processTry_proj messageEvent_def Let_def)
  with process_out_subset show ?thesis by blast
qed

lemma process_tool_part_creates:
  assumes "\<not> truthy (currentAssistantMessageId s)" and "acceptedToolPart env p c t"
  shows "Broadcast (Message (part_messageID p) (now_createdAt env)) \<in>
           set (fst (snd (process env (partEvent p delta) s)))"
proof -
  let ?h = "fst (maybeBroadcastToolProgressHeartbeat (now_heartbeat env) s)"
  have c: "\<not> truthy (currentAssistantMessageId ?h)"
    using assms(1) by simp
  from ensureAssistantMessage_creates[OF c, of "part_messageID p" env] show ?thesis
    by (auto simp: process_tool_part[OF assms(2)] handleToolPart_steps Let_def split: option.splits)
qed

lemma process_text_part_creates:
  assumes "\<not> truthy (currentAssistantMessageId s)" and "acceptedTextPart env p"
    and "currentOpenCodeUserMessageId s = Some u" and "part_messageID p \<noteq> Some u"
  shows "Broadcast (Message (part_messageID p) (now_createdAt env)) \<in>
           set (fst (snd (process env (partEvent p delta) s)))"
proof -
  let ?h = "fst (maybeBroadcastToolProgressHeartbeat (now_heartbeat env) s)"
  have c: "\<not> truthy (currentAssistantMessageId (trackUserMessage (part_messageID p) ?h))"
    using assms(1) by simp
  have u: "currentOpenCodeUserMessageId (trackUserMessage (part_messageID p) ?h) = Some u"
    using assms(3) by (simp add: trackUserMessage_user)
  have "\<exists>rest. fst (snd (handleTextPart env p delta ?h)) =
          snd (ensureAssistantMessage env (part_messageID p)
                 (trackUserMessage (part_messageID p) ?h)) @ rest"
    using assms(4) u by (simp add: handleTextPart_def Let_def case_prod_beta)
  with ensureAssistantMessage_creates[OF c, of "part_messageID p" env] assms(2)
  have "Broadcast (Message (part_messageID p) (now_createdAt env)) \<in>
          set (fst (snd (processTry env (partEvent p delta) s)))"
    by (auto simp: processTry_proj partEvent_def handlePartUpdate_def acceptedTextPart_def
        passesPartChecks_def Let_def)
  with process_out_subset show ?thesis by blast
qed

subsection \<open>The events that announce the assistant message\<close>

lemma filter_none: "countOf P xs = 0 \<Longrightarrow> filter P xs = []"
  by (simp add: countOf_def)

lemma ensureAssistantMessage_messages:
  "filter isMessage (snd (ensureAssistantMessage env m s)) =
     (if truthy (currentAssistantMessageId s) then []
      else [Broadcast (Message m (now_createdAt env))])"
  by (simp add: ensureAssistantMessage_def)

lemma complete_messages [simp]:
  "filter isMessage (snd (completeCurrentMessage s)) = []"
  by (simp add: completeCurrentMessage_def Let_def)

lemma handleToolPart_messages:
  "filter isMessage (fst (snd (handleToolPart env p c t s))) =
     filter isMessage (snd (ensureAssistantMessage env (part_messageID p) s))"
  by (simp add: handleToolPart_steps Let_def filter_none split: option.splits)

lemma handleTextPart_messages:
  "filter isMessage (fst (snd (handleTextPart env p d s))) =
     (if part_messageID p =
           (case currentOpenCodeUserMessageId s of None \<Rightarrow> part_messageID p | Some u \<Rightarrow> Some u)
      then []
      else filter isMessage (snd (ensureAssistantMessage env (part_messageID p) s)))"
proof (cases rule: handleTextPart_cases[of p s env d])
  case echo
  then show ?thesis by (simp add: trackUserMessage_user)
next
  case (assistant texts)
  from assistant(2) have "filter isMessage texts = []"
    by auto
  with assistant(1,3) show ?thesis
    by (simp add: trackUserMessage_user ensureAssistantMessage_messages)
qed

lemma handlePartUpdate_messages:
  "filter isMessage (fst (snd (handlePartUpdate env props s))) =
     (if \<not> truthy (currentAssistantMessageId s) \<and>
         announcesAssistantMessage env s (MessagePartUpdated props)
      then [Broadcast (Message (eventMessageId (MessagePartUpdated props)) (now_createdAt env))]
      else [])"
proof (cases rule: handlePartUpdate_cases[of props env s])
  case thrown
  then show ?thesis by simp
next
  case (textPart pr p)
  then show ?thesis
    by (auto simp: handleTextPart_messages ensureAssistantMessage_messages acceptedTextPart_def
        split: option.splits)
next
  case (toolPart pr p c t)
  then show ?thesis
    by (simp add: handleToolPart_messages ensureAssistantMessage_messages acceptedToolPart_def
        truthy_def)
next
  case dropped
  show ?thesis
  proof (cases "announcesAssistantMessage env s (MessagePartUpdated props)")
    case False
    with dropped show ?thesis by simp
  next
    case True
    then obtain pr p where pr: "props = Some pr" "pup_part pr = Some p"
      and ok: "passesPartChecks env p"
      and k: "if part_type p = Some ''text''
              then currentOpenCodeUserMessageId s \<noteq> None \<and>
                   part_messageID p \<noteq> currentOpenCodeUserMessageId s
              else truthy (part_callID p) \<and> truthy (part_tool p)"
      by (cases props) (auto split: option.splits)
    show ?thesis
    proof (cases "part_type p = Some ''text''")
      case True
      with pr ok have e: "handlePartUpdate env props s = handleTextPart env p (pup_delta pr) s"
        by (auto simp: handlePartUpdate_def passesPartChecks_def)
      from True k pr ok show ?thesis
        unfolding e
        by (auto simp: handleTextPart_messages ensureAssistantMessage_messages
            split: option.splits)
    next
      case False
      with k obtain c t where ct: "part_callID p = Some c" "c \<noteq> []" "part_tool p = Some t" "t \<noteq> []"
        by (auto simp: truthy_def split: option.splits)
      with pr ok False have e: "handlePartUpdate env props s = handleToolPart env p c t s"
        by (auto simp: handlePartUpdate_def passesPartChecks_def)
      from False k pr ok show ?thesis
        unfolding e
        by (simp add: handleToolPart_messages ensureAssistantMessage_messages)
    qed
  qed
qed

lemma handleMessageUpdate_messages:
  "filter isMessage (fst (snd (handleMessageUpdate env props s))) =
     (if \<not> truthy (currentAssistantMessageId s) \<and>
         announcesAssistantMessage env s (MessageUpdated props)
      then [Broadcast (Message (eventMessageId (MessageUpdated props)) (now_createdAt env))]
      else [])"
proof (cases "\<exists>info. props = Some (Some info)")
  case False
  then have "handleMessageUpdate env props s = (s, [], None)"
    by (cases props; cases "the props") (auto simp: handleMessageUpdate_def)
  moreover from False have "\<not> announcesAssistantMessage env s (MessageUpdated props)"
    by (cases props; cases "the props") auto
  ultimately show ?thesis by simp
next
  case True
  then obtain info where p: "props = Some (Some info)"
    by blast
  show ?thesis
  proof (cases "passesMessageChecks env info \<and> info_role info = Some ''assistant''")
    case False
    have "filter isMessage (fst (snd (handleMessageUpdate env props s))) = []"
    proof (cases "passesMessageChecks env info")
      case False
      then have "handleMessageUpdate env props s = (s, [], None)"
        by (auto simp: handleMessageUpdate_def p passesMessageChecks_def Let_def)
      then show ?thesis by simp
    next
      case True
      with False have "info_role info \<noteq> Some ''assistant''"
        by simp
      then show ?thesis
        by (cases rule: handleMessageUpdate_cases[of env props s]) (simp_all add: p)
    qed
    with False p show ?thesis by simp
  next
    case True
    have "filter isMessage (fst (snd (handleMessageUpdate env props s))) =
          filter isMessage (snd (ensureAssistantMessage env (info_id info) s))"
    proof (cases rule: handleMessageUpdate_cases[of env props s])
      case ignored
      from True have "\<exists>rest. fst (snd (handleMessageUpdate env props s)) =
          snd (ensureAssistantMessage env (info_id info) s) @ rest"
        by (auto simp: handleMessageUpdate_def p passesMessageChecks_def Let_def case_prod_beta
            split: option.splits)
      with ignored show ?thesis by simp
    next
      case (user info')
      with True p show ?thesis by simp
    next
      case (assistant info' errs)
      with p have "info' = info"
        by simp
      with assistant error_counts(1)[OF assistant(4)] show ?thesis
        by (simp add: filter_none)
    next
      case (completed info' errs)
      with p have "info' = info"
        by simp
      with completed error_counts(1)[OF completed(4)] show ?thesis
        by (simp add: filter_none)
    qed
    with True p show ?thesis
      by (simp add: ensureAssistantMessage_messages)
  qed
qed

lemma process_messages:
  "filter isMessage (fst (snd (process env event s))) =
     (if \<not> truthy (currentAssistantMessageId s) \<and> announcesAssistantMessage env s event
      then [Broadcast (Message (eventMessageId event) (now_createdAt env))]
      else [])"
proof -
  let ?h = "fst (maybeBroadcastToolProgressHeartbeat (now_heartbeat env) s)"
  have a: "announcesAssistantMessage env ?h event = announcesAssistantMessage env s event"
    by (cases "(env, s, event)" rule: announcesAssistantMessage.cases)
       (simp_all split: option.splits)
  have n: "filter isMessage (snd (maybeBroadcastToolProgressHeartbeat (now_heartbeat env) s)) = []"
    by (simp add: filter_none)
  have "filter isMessage (fst (snd (processTry env event s))) =
     (if \<not> truthy (currentAssistantMessageId s) \<and> announcesAssistantMessage env s event
      then [Broadcast (Message (eventMessageId event) (now_createdAt env))]
      else [])"
  proof (cases event)
    case (MessageUpdated props)
    with handleMessageUpdate_messages[of env props ?h] a n show ?thesis
      by (simp add: processTry_proj Let_def)
  next
    case (MessagePartUpdated props)
    with handlePartUpdate_messages[of env props ?h] a n show ?thesis
      by (simp add: processTry_proj Let_def)
  next
    case (SessionStatus props)
    with n show ?thesis
      by (simp add: processTry_proj Let_def handleSessionStatus_def case_prod_beta
          split: option.splits)
  next
    case (SessionError props)
    with n show ?thesis
      by (simp add: processTry_proj Let_def filter_none)
  qed (use n in \<open>simp_all add: processTry_proj Let_def handleSessionIdle_def case_prod_beta\<close>)
  moreover have "filter isMessage (fst (snd (process env event s))) =
                 filter isMessage (fst (snd (processTry env event s)))"
    by (simp add: process_def Let_def case_prod_beta split: option.splits)
  ultimately show ?thesis by simp
qed

text \<open>
  C3. Over any sequence of events that is processed without a \<open>message_complete\<close> broadcast
  (and without a reset in between), the \<open>message\<close> event is broadcast at most once, and it is
  broadcast exactly when the slot of the current assistant message goes from empty to set;
  a slot that is set stays as it is. With the slot empty, an accepted \<open>message.updated\<close> of
  role \<open>assistant\<close>, an accepted tool part, and an accepted text part of a message other than
  the tracked user message each broadcast the \<open>message\<close> with the id of their message.
  And nothing else does: in every call of \<open>process\<close>, completing or not, the \<open>message\<close>
  broadcasts are the single one with the id of the event's message when the slot is empty
  and the event announces an assistant message (the first text part after a reset, which
  is the echo of the user message, does not), and none otherwise.
\<close>

theorem message_once_per_turn:
  "(list_all isProcess calls \<and> countOf isMessageComplete (snd (run calls s)) = 0 \<longrightarrow>
      countOf isMessage (snd (run calls s)) \<le> 1 \<and>
      (countOf isMessage (snd (run calls s)) = 1 \<longleftrightarrow>
         \<not> truthy (currentAssistantMessageId s) \<and>
         truthy (currentAssistantMessageId (fst (run calls s)))) \<and>
      (truthy (currentAssistantMessageId s) \<longrightarrow>
         currentAssistantMessageId (fst (run calls s)) = currentAssistantMessageId s)) \<and>
   (\<not> truthy (currentAssistantMessageId s) \<and> passesMessageChecks env info \<and>
    info_role info = Some ''assistant'' \<longrightarrow>
      Broadcast (Message (info_id info) (now_createdAt env)) \<in>
        set (fst (snd (process env (messageEvent info) s)))) \<and>
   (\<not> truthy (currentAssistantMessageId s) \<and> acceptedToolPart env p callID tool \<longrightarrow>
      Broadcast (Message (part_messageID p) (now_createdAt env)) \<in>
        set (fst (snd (process env (partEvent p delta) s)))) \<and>
   (\<not> truthy (currentAssistantMessageId s) \<and> acceptedTextPart env p \<and>
    currentOpenCodeUserMessageId s = Some u \<and> part_messageID p \<noteq> Some u \<longrightarrow>
      Broadcast (Message (part_messageID p) (now_createdAt env)) \<in>
        set (fst (snd (process env (partEvent p delta) s)))) \<and>
   filter isMessage (fst (snd (process env event s))) =
     (if \<not> truthy (currentAssistantMessageId s) \<and> announcesAssistantMessage env s event
      then [Broadcast (Message (eventMessageId event) (now_createdAt env))]
      else [])"
proof (intro conjI impI)
  assume a: "list_all isProcess calls \<and> countOf isMessageComplete (snd (run calls s)) = 0"
  note r = run_slot[of calls s]
  show "countOf isMessage (snd (run calls s)) \<le> 1"
    using a r by (auto split: if_splits)
  show "(countOf isMessage (snd (run calls s)) = 1) =
        (\<not> truthy (currentAssistantMessageId s) \<and>
         truthy (currentAssistantMessageId (fst (run calls s))))"
    using a r by (auto split: if_splits)
  show "currentAssistantMessageId (fst (run calls s)) = currentAssistantMessageId s"
    if "truthy (currentAssistantMessageId s)"
    using a r that by simp
next
  show "filter isMessage (fst (snd (process env event s))) =
     (if \<not> truthy (currentAssistantMessageId s) \<and> announcesAssistantMessage env s event
      then [Broadcast (Message (eventMessageId event) (now_createdAt env))]
      else [])"
    by (rule process_messages)
qed (auto intro: process_assistant_update_creates process_tool_part_creates
      process_text_part_creates)

theorem message_once_per_turn_witness:
  "countOf isMessage (snd (run exampleTurn initial_state)) = 1 \<and>
   filter isMessage (snd (run exampleTurn initial_state)) =
     [Broadcast (Message (Some ''msg_2'') 2)] \<and>
   Broadcast (Message (Some ''msg_2'') 7) \<in>
     set (fst (snd (process (envAt 7) (messageEvent (exampleInfo ''msg_2'' ''assistant'')) initial_state))) \<and>
   Broadcast (Message (Some ''msg_2'') 7) \<in>
     set (fst (snd (process (envAt 7) (partEvent (exampleToolPart ''running'') None) initial_state))) \<and>
   Broadcast (Message (Some ''msg_2'') 7) \<in>
     set (fst (snd (process (envAt 7) (partEvent (exampleTextPart ''msg_2'' ''I will'') None)
                      (initial_state\<lparr> currentOpenCodeUserMessageId := Some ''msg_1'' \<rparr>)))) \<and>
   filter isMessage
     (fst (snd (process (envAt 1) (partEvent (exampleTextPart ''msg_1'' ''list the files'') None)
                  initial_state))) = [] \<and>
   filter isMessage
     (fst (snd (process (envAt 0) (messageEvent (exampleInfo ''msg_1'' ''user'')) initial_state))) = [] \<and>
   filter isMessage
     (fst (snd (process (envAt 7) (partEvent (exampleTextPart ''msg_2'' ''I will'') None)
                  (initial_state\<lparr> currentOpenCodeUserMessageId := Some ''msg_1'' \<rparr>)))) =
     [Broadcast (Message (Some ''msg_2'') 7)]"
proof -
  have h: "list_all isProcess exampleTurn"
    "countOf isMessageComplete (snd (run exampleTurn initial_state)) = 0"
    "truthy (currentAssistantMessageId (fst (run exampleTurn initial_state)))"
    by (simp_all add: exampleTurn_def messageEvent_def eval_defs)
  have m: "filter isMessage (snd (run exampleTurn initial_state)) =
             [Broadcast (Message (Some ''msg_2'') 2)]"
    by (simp add: exampleTurn_def messageEvent_def eval_defs)
  have i: "\<not> truthy (currentAssistantMessageId initial_state)"
    "\<not> truthy (currentAssistantMessageId
                (initial_state\<lparr> currentOpenCodeUserMessageId := Some ''msg_1'' \<rparr>))"
    "currentOpenCodeUserMessageId initial_state = None"
    by (simp_all add: initial_state_def truthy_def)
  have k: "passesMessageChecks (envAt 7) (exampleInfo ''msg_2'' ''assistant'')"
    "acceptedToolPart (envAt 7) (exampleToolPart ''running'') ''call_1'' ''bash''"
    "acceptedTextPart (envAt 7) (exampleTextPart ''msg_2'' ''I will'')"
    by (simp_all add: passesMessageChecks_def acceptedToolPart_def acceptedTextPart_def
        passesPartChecks_def eval_defs)
  have e: "\<not> announcesAssistantMessage (envAt 1) initial_state
               (partEvent (exampleTextPart ''msg_1'' ''list the files'') None)"
    "\<not> announcesAssistantMessage (envAt 0) initial_state
               (messageEvent (exampleInfo ''msg_1'' ''user''))"
    "announcesAssistantMessage (envAt 7)
       (initial_state\<lparr> currentOpenCodeUserMessageId := Some ''msg_1'' \<rparr>)
       (partEvent (exampleTextPart ''msg_2'' ''I will'') None)"
    "eventMessageId (partEvent (exampleTextPart ''msg_2'' ''I will'') None) = Some ''msg_2''"
    by (simp_all add: partEvent_def messageEvent_def exampleTextPart_def exampleInfo_def
        initial_state_def passesPartChecks_def envAt_def truthy_def)
  note t1 = message_once_per_turn
            [of exampleTurn initial_state "envAt 7" "exampleInfo ''msg_2'' ''assistant''"
                "exampleToolPart ''running''" "''call_1''" "''bash''" None _
                "partEvent (exampleTextPart ''msg_2'' ''I will'') None"]
  note t2 = message_once_per_turn
            [of "[]" "initial_state\<lparr> currentOpenCodeUserMessageId := Some ''msg_1'' \<rparr>" "envAt 7"
                "exampleInfo ''msg_2'' ''assistant''" "exampleTextPart ''msg_2'' ''I will''"
                "''call_1''" "''bash''" None "''msg_1''"
                "partEvent (exampleTextPart ''msg_2'' ''I will'') None"]
  note t3 = message_once_per_turn
            [of "[]" initial_state "envAt 1" _ _ _ _ _ _
                "partEvent (exampleTextPart ''msg_1'' ''list the files'') None"]
  note t4 = message_once_per_turn
            [of "[]" initial_state "envAt 0" _ _ _ _ _ _
                "messageEvent (exampleInfo ''msg_1'' ''user'')"]
  have a: "countOf isMessage (snd (run exampleTurn initial_state)) = 1"
    using t1 h i by simp
  have b: "Broadcast (Message (Some ''msg_2'') 7) \<in>
     set (fst (snd (process (envAt 7) (messageEvent (exampleInfo ''msg_2'' ''assistant'')) initial_state)))"
    "Broadcast (Message (Some ''msg_2'') 7) \<in>
     set (fst (snd (process (envAt 7) (partEvent (exampleToolPart ''running'') None) initial_state)))"
    using t1 i k by (simp_all add: exampleInfo_def exampleToolPart_def envAt_def)
  have c: "Broadcast (Message (Some ''msg_2'') 7) \<in>
     set (fst (snd (process (envAt 7) (partEvent (exampleTextPart ''msg_2'' ''I will'') None)
                      (initial_state\<lparr> currentOpenCodeUserMessageId := Some ''msg_1'' \<rparr>))))"
    "filter isMessage
     (fst (snd (process (envAt 7) (partEvent (exampleTextPart ''msg_2'' ''I will'') None)
                  (initial_state\<lparr> currentOpenCodeUserMessageId := Some ''msg_1'' \<rparr>)))) =
     [Broadcast (Message (Some ''msg_2'') 7)]"
    using t2 i k e by (simp_all add: exampleTextPart_def envAt_def)
  have d: "filter isMessage
     (fst (snd (process (envAt 1) (partEvent (exampleTextPart ''msg_1'' ''list the files'') None)
                  initial_state))) = []"
    "filter isMessage
     (fst (snd (process (envAt 0) (messageEvent (exampleInfo ''msg_1'' ''user'')) initial_state))) = []"
    using t3 t4 e by simp_all
  show ?thesis
    using a m b c d by blast
qed

subsection \<open>The message ids in the broadcasts\<close>

lemma complete_proj [simp]:
  "currentOpenCodeUserMessageId (fst (completeCurrentMessage s)) = currentOpenCodeUserMessageId s"
  by (simp add: completeCurrentMessage_def Let_def)

lemma complete_carries:
  assumes "currentAssistantMessageId s \<noteq> Some m"
  shows "currentAssistantMessageId (fst (completeCurrentMessage s)) \<noteq> Some m"
    and "countOf (carriesMessageId m) (snd (completeCurrentMessage s)) = 0"
  using assms by (simp_all add: completeCurrentMessage_def Let_def)

lemma ensureAssistantMessage_carries:
  assumes "currentAssistantMessageId s \<noteq> Some m" and "mid \<noteq> Some m"
  shows "currentAssistantMessageId (fst (ensureAssistantMessage env mid s)) \<noteq> Some m"
    and "countOf (carriesMessageId m) (snd (ensureAssistantMessage env mid s)) = 0"
  using assms by (simp_all add: ensureAssistantMessage_def)

lemma toolStartStep_carries:
  assumes "currentAssistantMessageId s \<noteq> Some m"
  shows "countOf (carriesMessageId m) (snd (toolStartStep env p c t s)) = 0"
  using assms toolStartStep_out[of env p c t s] by auto

lemma handleToolPart_carries:
  assumes "currentAssistantMessageId s \<noteq> Some m" and "part_messageID p \<noteq> Some m"
  shows "currentAssistantMessageId (fst (handleToolPart env p c t s)) \<noteq> Some m"
    and "countOf (carriesMessageId m) (fst (snd (handleToolPart env p c t s))) = 0"
proof -
  note e = ensureAssistantMessage_carries[OF assms, of env]
  show "currentAssistantMessageId (fst (handleToolPart env p c t s)) \<noteq> Some m"
    using e(1) by (simp add: handleToolPart_slot)
  show "countOf (carriesMessageId m) (fst (snd (handleToolPart env p c t s))) = 0"
    using e(2) toolStartStep_carries[OF e(1), of env p c t]
    by (simp add: handleToolPart_steps Let_def split: option.splits)
qed

lemma handleTextPart_carries:
  assumes "currentAssistantMessageId s \<noteq> Some m" and "part_messageID p \<noteq> Some m"
  shows "currentAssistantMessageId (fst (handleTextPart env p d s)) \<noteq> Some m"
    and "countOf (carriesMessageId m) (fst (snd (handleTextPart env p d s))) = 0"
proof -
  have c: "currentAssistantMessageId (trackUserMessage (part_messageID p) s) \<noteq> Some m"
    using assms(1) by simp
  note e = ensureAssistantMessage_carries[OF c assms(2), of env]
  show "currentAssistantMessageId (fst (handleTextPart env p d s)) \<noteq> Some m"
    using assms(1) e(1) by (cases rule: handleTextPart_cases[of p s env d]) simp_all
  show "countOf (carriesMessageId m) (fst (snd (handleTextPart env p d s))) = 0"
  proof (cases rule: handleTextPart_cases[of p s env d])
    case echo
    then show ?thesis by simp
  next
    case (assistant texts)
    from assistant(2) e(1) have "countOf (carriesMessageId m) texts = 0"
      by auto
    with assistant(3) e(2) show ?thesis by simp
  qed
qed

lemma handlePartUpdate_carries:
  assumes "currentAssistantMessageId s \<noteq> Some m"
    and "m \<notin> eventMessageIds (MessagePartUpdated props)"
  shows "currentAssistantMessageId (fst (handlePartUpdate env props s)) \<noteq> Some m"
    and "countOf (carriesMessageId m) (fst (snd (handlePartUpdate env props s))) = 0"
proof -
  have "currentAssistantMessageId (fst (handlePartUpdate env props s)) \<noteq> Some m \<and>
        countOf (carriesMessageId m) (fst (snd (handlePartUpdate env props s))) = 0"
  proof (cases rule: handlePartUpdate_cases[of props env s])
    case thrown
    with assms(1) show ?thesis by simp
  next
    case dropped
    with assms(1) show ?thesis by simp
  next
    case (textPart pr p)
    with assms(2) have "part_messageID p \<noteq> Some m"
      by (auto split: option.splits)
    with textPart handleTextPart_carries[OF assms(1), of p env "pup_delta pr"] show ?thesis
      by simp
  next
    case (toolPart pr p c t)
    with assms(2) have "part_messageID p \<noteq> Some m"
      by (auto split: option.splits)
    with toolPart handleToolPart_carries[OF assms(1), of p env c t] show ?thesis
      by simp
  qed
  then show "currentAssistantMessageId (fst (handlePartUpdate env props s)) \<noteq> Some m"
    and "countOf (carriesMessageId m) (fst (snd (handlePartUpdate env props s))) = 0"
    by simp_all
qed

lemma handleMessageUpdate_carries:
  assumes "currentAssistantMessageId s \<noteq> Some m"
    and "m \<notin> eventMessageIds (MessageUpdated props)"
  shows "currentAssistantMessageId (fst (handleMessageUpdate env props s)) \<noteq> Some m \<and>
         countOf (carriesMessageId m) (fst (snd (handleMessageUpdate env props s))) = 0"
proof (cases rule: handleMessageUpdate_cases[of env props s])
  case ignored
  with assms(1) show ?thesis by simp
next
  case (user info)
  with assms(1) show ?thesis by simp
next
  case (assistant info errs)
  with assms(2) have "info_id info \<noteq> Some m"
    by auto
  with assistant ensureAssistantMessage_carries[OF assms(1), of "info_id info" env]
    error_counts(4)[OF assistant(4)]
  show ?thesis by simp
next
  case (completed info errs)
  with assms(2) have "info_id info \<noteq> Some m"
    by auto
  note e = ensureAssistantMessage_carries[OF assms(1) this, of env]
  from completed e complete_carries[OF e(1)] error_counts(4)[OF completed(4)]
  show ?thesis by simp
qed

lemma process_carries:
  assumes "currentAssistantMessageId s \<noteq> Some m" and "m \<notin> eventMessageIds event"
  shows "currentAssistantMessageId (fst (process env event s)) \<noteq> Some m"
    and "countOf (carriesMessageId m) (fst (snd (process env event s))) = 0"
proof -
  let ?h = "fst (maybeBroadcastToolProgressHeartbeat (now_heartbeat env) s)"
  have c: "currentAssistantMessageId ?h \<noteq> Some m"
    using assms(1) by simp
  have "currentAssistantMessageId (fst (processTry env event s)) \<noteq> Some m \<and>
        countOf (carriesMessageId m) (fst (snd (processTry env event s))) = 0"
  proof (cases event)
    case (MessageUpdated props)
    with assms(2) handleMessageUpdate_carries[OF c, of props env] show ?thesis
      by (simp add: processTry_proj Let_def)
  next
    case (MessagePartUpdated props)
    with assms(2) handlePartUpdate_carries[OF c, of props env] show ?thesis
      by (simp add: processTry_proj Let_def)
  next
    case SessionIdle
    with complete_carries[OF c] show ?thesis
      by (simp add: processTry_proj Let_def handleSessionIdle_def case_prod_beta)
  next
    case (SessionStatus props)
    with c complete_carries[OF c] show ?thesis
      by (simp add: processTry_proj Let_def handleSessionStatus_def case_prod_beta
          split: option.splits)
  next
    case (SessionError props)
    with c show ?thesis
      by (simp add: processTry_proj Let_def handleSessionError_def split: option.splits)
  qed (use assms(1) in \<open>simp_all add: processTry_proj Let_def\<close>)
  then show "currentAssistantMessageId (fst (process env event s)) \<noteq> Some m"
    and "countOf (carriesMessageId m) (fst (snd (process env event s))) = 0"
    by (simp_all add: process_count process_proj)
qed

lemma run_carries:
  assumes "currentAssistantMessageId s \<noteq> Some m"
    and "list_all (\<lambda>c. m \<notin> callMessageIds c) calls"
  shows "currentAssistantMessageId (fst (run calls s)) \<noteq> Some m \<and>
         countOf (carriesMessageId m) (snd (run calls s)) = 0"
  using assms
proof (induction calls arbitrary: s)
  case Nil
  then show ?case by simp
next
  case (Cons c calls)
  show ?case
  proof (cases c)
    case (Process env event)
    with Cons.prems have e: "m \<notin> eventMessageIds event" and r: "list_all (\<lambda>c. m \<notin> callMessageIds c) calls"
      by simp_all
    note p = process_carries[OF Cons.prems(1) e, of env]
    from Cons.IH[OF p(1) r] p(2) show ?thesis
      by (simp add: Process run_Process del: run.simps)
  next
    case ResetForNewPrompt
    with Cons.prems Cons.IH[of "resetForNewPrompt s"] show ?thesis
      by (simp add: resetForNewPrompt_def)
  next
    case ClearCurrentAssistantMessageId
    with Cons.prems Cons.IH[of "clearCurrentAssistantMessageId s"] show ?thesis
      by (simp add: clearCurrentAssistantMessageId_def)
  qed
qed

text \<open>
  C5. \<open>resetForNewPrompt\<close> leaves the processor in its initial state, with the current
  assistant message id, the tracked user message id, the tool states, the sent-event keys and
  the running-tool watches all cleared. So what is broadcast for the calls that follow is
  what a new processor would broadcast, and no broadcast carries a message id that does not
  occur in the events of these calls: an assistant-message id from before the reset is
  never reused.
\<close>

theorem reset_isolation:
  "resetForNewPrompt s = initial_state \<and>
   run calls (resetForNewPrompt s) = run calls initial_state \<and>
   (list_all (\<lambda>c. m \<notin> callMessageIds c) calls \<longrightarrow>
      countOf (carriesMessageId m) (snd (run calls (resetForNewPrompt s))) = 0)"
proof -
  have r: "resetForNewPrompt s = initial_state"
    by (simp add: resetForNewPrompt_def initial_state_def)
  have "currentAssistantMessageId initial_state \<noteq> Some m"
    by (simp add: initial_state_def)
  from run_carries[OF this] r show ?thesis
    by simp
qed

theorem reset_isolation_witness:
  "currentAssistantMessageId (fst (run exampleTurn initial_state)) = Some ''msg_2'' \<and>
   countOf (carriesMessageId ''msg_2'')
     (snd (run exampleNextTurn (resetForNewPrompt (fst (run exampleTurn initial_state))))) = 0 \<and>
   countOf (carriesMessageId ''msg_4'')
     (snd (run exampleNextTurn (resetForNewPrompt (fst (run exampleTurn initial_state))))) = 3"
proof -
  have a: "currentAssistantMessageId (fst (run exampleTurn initial_state)) = Some ''msg_2''"
    by (simp add: exampleTurn_def messageEvent_def eval_defs)
  have b: "list_all (\<lambda>c. ''msg_2'' \<notin> callMessageIds c) exampleNextTurn"
    by (simp add: exampleNextTurn_def messageEvent_def partEvent_def exampleInfo_def
        exampleTextPart_def)
  have c: "countOf (carriesMessageId ''msg_4'') (snd (run exampleNextTurn initial_state)) = 3"
    by (simp add: exampleNextTurn_def messageEvent_def eval_defs)
  note t = reset_isolation[of "fst (run exampleTurn initial_state)" exampleNextTurn "''msg_2''"]
  have e: "run exampleNextTurn (resetForNewPrompt (fst (run exampleTurn initial_state))) =
           run exampleNextTurn initial_state"
    using t by blast
  have z: "countOf (carriesMessageId ''msg_2'')
             (snd (run exampleNextTurn (resetForNewPrompt (fst (run exampleTurn initial_state))))) = 0"
    using t b by blast
  show ?thesis
    using a z c by (simp add: e)
qed

subsection \<open>The echoed user message\<close>

lemma handleMessageUpdate_user:
  "currentOpenCodeUserMessageId (fst (handleMessageUpdate env props s)) =
     (case currentOpenCodeUserMessageId s of
        Some u \<Rightarrow> Some u
      | None \<Rightarrow> offeredUserMessage env (MessageUpdated props))"
proof (cases "\<exists>info. props = Some (Some info)")
  case False
  then have "handleMessageUpdate env props s = (s, [], None)"
    by (cases props; cases "the props") (auto simp: handleMessageUpdate_def)
  moreover from False have "offeredUserMessage env (MessageUpdated props) = None"
    by (cases props; cases "the props") auto
  ultimately show ?thesis by (simp split: option.splits)
next
  case True
  then obtain info where p: "props = Some (Some info)"
    by blast
  show ?thesis
  proof (cases "passesMessageChecks env info")
    case False
    then have "handleMessageUpdate env props s = (s, [], None)"
      by (auto simp: handleMessageUpdate_def p passesMessageChecks_def Let_def)
    with False p show ?thesis by (simp split: option.splits)
  next
    case ok: True
    show ?thesis
    proof (cases "info_role info = Some ''user''")
      case True
      with ok have "handleMessageUpdate env props s = (trackUserMessage (info_id info) s, [], None)"
        by (auto simp: handleMessageUpdate_def p passesMessageChecks_def Let_def)
      with ok True p show ?thesis
        by (simp add: trackUserMessage_user split: option.splits)
    next
      case False
      have "currentOpenCodeUserMessageId (fst (handleMessageUpdate env props s)) =
            currentOpenCodeUserMessageId s"
        using False
        by (cases rule: handleMessageUpdate_cases[of env props s]) (simp_all add: p)
      with False p show ?thesis by (simp split: option.splits)
    qed
  qed
qed

lemma handleTextPart_user:
  "currentOpenCodeUserMessageId (fst (handleTextPart env p d s)) =
     (case currentOpenCodeUserMessageId s of Some u \<Rightarrow> Some u | None \<Rightarrow> part_messageID p)"
  by (cases rule: handleTextPart_cases[of p s env d]) (simp_all add: trackUserMessage_user)

lemma handlePartUpdate_user:
  "currentOpenCodeUserMessageId (fst (handlePartUpdate env props s)) =
     (case currentOpenCodeUserMessageId s of
        Some u \<Rightarrow> Some u
      | None \<Rightarrow> offeredUserMessage env (MessagePartUpdated props))"
proof (cases props)
  case None
  then show ?thesis by (simp add: handlePartUpdate_def split: option.splits)
next
  case (Some pr)
  show ?thesis
  proof (cases "pup_part pr")
    case None
    with Some show ?thesis by (simp add: handlePartUpdate_def split: option.splits)
  next
    case part: (Some p)
    show ?thesis
    proof (cases "acceptedTextPart env p")
      case True
      with Some part have "handlePartUpdate env props s = handleTextPart env p (pup_delta pr) s"
        by (auto simp: handlePartUpdate_def acceptedTextPart_def passesPartChecks_def)
      with True Some part show ?thesis
        by (simp add: handleTextPart_user split: option.splits)
    next
      case False
      have "currentOpenCodeUserMessageId (fst (handlePartUpdate env props s)) =
            currentOpenCodeUserMessageId s"
      proof (cases rule: handlePartUpdate_cases[of props env s])
        case (textPart pr' p')
        with Some part False show ?thesis by simp
      next
        case (toolPart pr' p' c t)
        then show ?thesis by (simp add: handleToolPart_slot)
      qed simp_all
      with False Some part show ?thesis by (simp split: option.splits)
    qed
  qed
qed

lemma process_user:
  "currentOpenCodeUserMessageId (fst (process env event s)) =
     (case currentOpenCodeUserMessageId s of
        Some u \<Rightarrow> Some u
      | None \<Rightarrow> offeredUserMessage env event)"
proof -
  let ?h = "fst (maybeBroadcastToolProgressHeartbeat (now_heartbeat env) s)"
  have "currentOpenCodeUserMessageId (fst (processTry env event s)) =
     (case currentOpenCodeUserMessageId s of
        Some u \<Rightarrow> Some u
      | None \<Rightarrow> offeredUserMessage env event)"
  proof (cases event)
    case (MessageUpdated props)
    with handleMessageUpdate_user[of env props ?h] show ?thesis
      by (simp add: processTry_proj Let_def split: option.splits)
  next
    case (MessagePartUpdated props)
    with handlePartUpdate_user[of env props ?h] show ?thesis
      by (simp add: processTry_proj Let_def split: option.splits)
  next
    case (SessionStatus props)
    then show ?thesis
      by (simp add: processTry_proj Let_def handleSessionStatus_def case_prod_beta
          split: option.splits)
  next
    case (SessionError props)
    then show ?thesis
      by (simp add: processTry_proj Let_def handleSessionError_def split: option.splits)
  qed (simp_all add: processTry_proj Let_def handleSessionIdle_def case_prod_beta
        split: option.splits)
  then show ?thesis by (simp add: process_proj)
qed

lemma run_user_kept:
  assumes "list_all (\<lambda>c. c \<noteq> ResetForNewPrompt) calls" and "currentOpenCodeUserMessageId s = Some u"
  shows "currentOpenCodeUserMessageId (fst (run calls s)) = Some u"
  using assms
proof (induction calls arbitrary: s)
  case Nil
  then show ?case by simp
next
  case (Cons c calls)
  show ?case
  proof (cases c)
    case (Process env event)
    have "currentOpenCodeUserMessageId (fst (process env event s)) = Some u"
      using Cons.prems(2) by (simp add: process_user)
    with Cons.IH[of "fst (process env event s)"] Cons.prems(1) show ?thesis
      by (simp add: Process run_Process del: run.simps)
  next
    case ResetForNewPrompt
    with Cons.prems(1) show ?thesis by simp
  next
    case ClearCurrentAssistantMessageId
    with Cons.prems Cons.IH[of "clearCurrentAssistantMessageId s"] show ?thesis
      by (simp add: clearCurrentAssistantMessageId_def)
  qed
qed

lemma process_echo:
  assumes "currentOpenCodeUserMessageId s = Some u" and "part_messageID p = Some u"
  shows "countOf isTextBroadcast (fst (snd (process env (partEvent p delta) s))) = 0"
proof -
  let ?h = "fst (maybeBroadcastToolProgressHeartbeat (now_heartbeat env) s)"
  let ?props = "Some \<lparr> pup_part = Some p, pup_delta = delta \<rparr>"
  have "countOf isTextBroadcast (fst (snd (handlePartUpdate env ?props ?h))) = 0"
  proof (cases rule: handlePartUpdate_cases[of ?props env ?h])
    case (textPart pr p')
    then have p': "p' = p"
      by auto
    have "handleTextPart env p (pup_delta pr) ?h = (trackUserMessage (part_messageID p) ?h, [], None)"
      using assms by (simp add: handleTextPart_def Let_def trackUserMessage_user)
    with textPart(4) p' show ?thesis by simp
  next
    case (toolPart pr p' c t)
    then show ?thesis by simp
  qed simp_all
  then have "countOf isTextBroadcast (fst (snd (processTry env (partEvent p delta) s))) = 0"
    by (simp add: processTry_proj partEvent_def Let_def)
  then show ?thesis by (simp add: process_count)
qed

text \<open>
  C6. While no user message is tracked (as after a reset), the processor records as the
  echoed user message the message id that an event offers: the id of an accepted
  \<open>message.updated\<close> of role \<open>user\<close>, or the message id of an accepted text part; no other
  event sets it. Once recorded it is kept until the next reset, whatever is processed, and
  every part update that carries this message id is answered with no \<open>token\<close> and no
  \<open>text_part_complete\<close> broadcast.
\<close>

theorem user_echo_suppressed:
  "(currentOpenCodeUserMessageId s = None \<longrightarrow>
      currentOpenCodeUserMessageId (fst (process env event s)) = offeredUserMessage env event) \<and>
   (currentOpenCodeUserMessageId s = Some u \<and> list_all (\<lambda>c. c \<noteq> ResetForNewPrompt) calls \<and>
    part_messageID p = Some u \<longrightarrow>
      currentOpenCodeUserMessageId (fst (run calls s)) = Some u \<and>
      countOf isTextBroadcast
        (fst (snd (process env1 (partEvent p delta) (fst (run calls s))))) = 0)"
  using run_user_kept[of calls s u] process_echo[of "fst (run calls s)" u p env1 delta]
  by (simp add: process_user)

theorem user_echo_suppressed_witness:
  "currentOpenCodeUserMessageId
     (fst (process (envAt 0) (messageEvent (exampleInfo ''msg_1'' ''user'')) initial_state)) =
     Some ''msg_1'' \<and>
   currentOpenCodeUserMessageId
     (fst (process (envAt 0) (partEvent (exampleTextPart ''msg_1'' ''list the files'') None)
             initial_state)) = Some ''msg_1'' \<and>
   currentOpenCodeUserMessageId
     (fst (process (envAt 0) (messageEvent (exampleInfo ''msg_2'' ''assistant'')) initial_state)) =
     None \<and>
   countOf isTextBroadcast
     (fst (snd (process (envAt 9) (partEvent (exampleTextPart ''msg_1'' ''list the files'') None)
                  (fst (run exampleTurn
                          (fst (process (envAt 0) (messageEvent (exampleInfo ''msg_1'' ''user''))
                                  initial_state))))))) = 0"
proof -
  have i: "currentOpenCodeUserMessageId initial_state = None"
    by (simp add: initial_state_def)
  have o: "offeredUserMessage (envAt 0) (messageEvent (exampleInfo ''msg_1'' ''user'')) = Some ''msg_1''"
    "offeredUserMessage (envAt 0) (partEvent (exampleTextPart ''msg_1'' ''list the files'') None) =
       Some ''msg_1''"
    "offeredUserMessage (envAt 0) (messageEvent (exampleInfo ''msg_2'' ''assistant'')) = None"
    by (simp_all add: messageEvent_def partEvent_def passesMessageChecks_def acceptedTextPart_def
        passesPartChecks_def exampleInfo_def exampleTextPart_def envAt_def truthy_def)
  have l: "list_all (\<lambda>c. c \<noteq> ResetForNewPrompt) exampleTurn"
    by (simp add: exampleTurn_def)
  have m: "part_messageID (exampleTextPart ''msg_1'' ''list the files'') = Some ''msg_1''"
    by (simp add: exampleTextPart_def)
  note a = user_echo_suppressed
             [of initial_state "envAt 0" "messageEvent (exampleInfo ''msg_1'' ''user'')"]
  note b = user_echo_suppressed
             [of initial_state "envAt 0" "partEvent (exampleTextPart ''msg_1'' ''list the files'') None"]
  note c = user_echo_suppressed
             [of initial_state "envAt 0" "messageEvent (exampleInfo ''msg_2'' ''assistant'')"]
  have first: "currentOpenCodeUserMessageId
      (fst (process (envAt 0) (messageEvent (exampleInfo ''msg_1'' ''user'')) initial_state)) =
      Some ''msg_1''"
    using a i o(1) by simp
  note d = user_echo_suppressed
             [of "fst (process (envAt 0) (messageEvent (exampleInfo ''msg_1'' ''user'')) initial_state)"
                 _ _ "''msg_1''" exampleTurn "exampleTextPart ''msg_1'' ''list the files''"
                 "envAt 9" None]
  show ?thesis
    using first b c d i o l m by simp
qed

section \<open>The tool-progress heartbeat over a sequence of calls\<close>

subsection \<open>The entries of the watch map\<close>

lemma update_all:
  assumes "list_all P ws" and "P (c, v)"
  shows "list_all P (AList.update c v ws)"
  using assms by (induction ws) auto

lemma update_all_key:
  assumes "distinct (map fst ws)" and "Q v"
  shows "list_all (\<lambda>kw. fst kw \<noteq> k \<or> Q (snd kw)) (AList.update k v ws)"
  using assms
proof (induction ws)
  case Nil
  then show ?case by simp
next
  case (Cons a ws)
  show ?case
  proof (cases "fst a = k")
    case True
    with Cons.prems have "k \<notin> fst ` set ws"
      by auto
    then have "list_all (\<lambda>kw. fst kw \<noteq> k \<or> Q (snd kw)) ws"
      by (auto simp: list_all_iff)
    with True Cons.prems(2) show ?thesis by simp
  next
    case False
    with Cons show ?thesis by simp
  qed
qed

lemma touchWatch_all:
  assumes "list_all P ws" and "\<And>w. P (c, w) \<Longrightarrow> P (c, w\<lparr> lastUpdateAt := now, toolName := t \<rparr>)"
  shows "list_all P (touchWatch c t now ws)"
proof (cases "map_of ws c")
  case None
  with assms(1) show ?thesis by (simp add: touchWatch_def)
next
  case (Some w)
  then have "(c, w) \<in> set ws"
    by (rule map_of_SomeD)
  with assms(1) have "P (c, w)"
    by (auto simp: list_all_iff)
  with assms Some show ?thesis
    by (simp add: touchWatch_def update_all)
qed

lemma touchWatch_all_key:
  assumes "distinct (map fst ws)" and "\<And>w. Q (w\<lparr> lastUpdateAt := now, toolName := t \<rparr>)"
  shows "list_all (\<lambda>kw. fst kw \<noteq> k \<or> Q (snd kw)) (touchWatch k t now ws)"
proof (cases "map_of ws k")
  case None
  then have "k \<notin> fst ` set ws"
    by (simp add: map_of_eq_None_iff)
  then show ?thesis
    using None by (auto simp: touchWatch_def list_all_iff)
next
  case (Some w)
  from update_all_key[OF assms(1), of Q "w\<lparr> lastUpdateAt := now, toolName := t \<rparr>" k] assms(2) Some
  show ?thesis
    by (simp add: touchWatch_def)
qed

lemma delete_all: "list_all P ws \<Longrightarrow> list_all P (AList.delete c ws)"
  by (simp add: AList.delete_eq list_all_iff)

lemma touchWatch_keys: "map fst (touchWatch c t now ws) = map fst ws"
proof (cases "map_of ws c")
  case None
  then show ?thesis by (simp add: touchWatch_def)
next
  case (Some w)
  then have "(c, w) \<in> set ws"
    by (rule map_of_SomeD)
  then have "c \<in> fst ` set ws"
    by force
  with Some show ?thesis
    by (simp add: touchWatch_def update_keys)
qed

lemma heartbeatLoop_keys: "map fst (fst (heartbeatLoop now ws)) = map fst ws"
proof (induction ws)
  case Nil
  show ?case by simp
next
  case (Cons kw ws)
  from heartbeatEntry_cases[of now kw] Cons show ?case
    by (auto simp: Let_def case_prod_beta)
qed

lemma heartbeatLoop_all:
  assumes "list_all P ws"
    and "\<And>kw. P kw \<Longrightarrow> P (fst kw, (snd kw)\<lparr> lastStatusBroadcastAt := now \<rparr>)"
  shows "list_all P (fst (heartbeatLoop now ws))"
  using assms(1)
proof (induction ws)
  case Nil
  show ?case by simp
next
  case (Cons kw ws)
  from heartbeatEntry_cases[of now kw] Cons assms(2)[of kw] show ?case
    by (auto simp: Let_def case_prod_beta)
qed

lemma heartbeatLoop_out:
  "snd (heartbeatLoop now ws) =
     map (\<lambda>kw. Broadcast (Status ''running'' (heartbeatMessage now (snd kw))))
       (filter (\<lambda>kw. heartbeatDue now (snd kw)) ws)"
  by (induction ws)
     (simp_all add: Let_def case_prod_beta heartbeatEntry_def heartbeatDue_def)

lemma heartbeatLoop_due:
  assumes "distinct (map fst ws)" and "(k, w) \<in> set ws" and "heartbeatDue now w"
  shows "list_all (\<lambda>kw. fst kw \<noteq> k \<or> lastStatusBroadcastAt (snd kw) = now)
           (fst (heartbeatLoop now ws))"
  using assms
proof (induction ws)
  case Nil
  then show ?case by simp
next
  case (Cons a ws)
  show ?case
  proof (cases "fst a = k")
    case True
    with Cons.prems(1) have n: "k \<notin> fst ` set ws"
      by auto
    with Cons.prems(2) True have a: "a = (k, w)"
      by (cases a) force
    have "k \<notin> fst ` set (fst (heartbeatLoop now ws))"
      using n heartbeatLoop_keys[of now ws] by (metis list.set_map)
    then have "list_all (\<lambda>kw. fst kw \<noteq> k \<or> lastStatusBroadcastAt (snd kw) = now)
                 (fst (heartbeatLoop now ws))"
      by (auto simp: list_all_iff)
    with a Cons.prems(3) show ?thesis
      by (simp add: Let_def case_prod_beta heartbeatEntry_def heartbeatDue_def)
  next
    case False
    with Cons.prems have "(k, w) \<in> set ws" "distinct (map fst ws)"
      by auto
    with Cons.IH Cons.prems(3) False heartbeatEntry_cases[of now a] show ?thesis
      by (auto simp: Let_def case_prod_beta)
  qed
qed

subsection \<open>The watch map through a call\<close>

lemma heartbeat_watch:
  "runningToolWatch (fst (maybeBroadcastToolProgressHeartbeat now s)) =
     fst (heartbeatLoop now (runningToolWatch s))"
  by (simp add: maybeBroadcastToolProgressHeartbeat_def case_prod_beta)

lemma heartbeat_out:
  "snd (maybeBroadcastToolProgressHeartbeat now s) =
     map (\<lambda>kw. Broadcast (Status ''running'' (heartbeatMessage now (snd kw))))
       (filter (\<lambda>kw. heartbeatDue now (snd kw)) (runningToolWatch s))"
  by (simp add: maybeBroadcastToolProgressHeartbeat_def case_prod_beta heartbeatLoop_out)

lemma toolStartStep_watch:
  "runningToolWatch (fst (toolStartStep env p c t s)) =
     (if startKey p \<notin> sentToolEvents s
      then AList.update c \<lparr> toolName = t, startedAt = now_tool env, lastUpdateAt = now_tool env,
                            lastStatusBroadcastAt = 0 \<rparr> (runningToolWatch s)
      else if partArgs p \<noteq> [] \<and> argsKey p \<notin> sentToolEvents s
      then touchWatch c t (now_tool env) (runningToolWatch s)
      else runningToolWatch s)"
  by (simp add: toolStartStep_def Let_def)

lemma toolStartStep_silent:
  "snd (toolStartStep env p c t s) = [] \<longleftrightarrow>
     \<not> (startKey p \<notin> sentToolEvents s \<or> (partArgs p \<noteq> [] \<and> argsKey p \<notin> sentToolEvents s))"
  by (simp add: toolStartStep_def Let_def)

lemma toolMetadataStep_watch:
  "runningToolWatch (fst (toolMetadataStep env p c t s)) =
     (if fst (snd (toolMetadataStep env p c t s)) = [] then runningToolWatch s
      else touchWatch c t (now_tool env) (runningToolWatch s))"
  by (simp add: toolMetadataStep_def Let_def split: option.splits)

lemma toolCompletionStep_watch:
  "runningToolWatch (fst (toolCompletionStep p c t s)) =
     (if snd (toolCompletionStep p c t s) = [] then runningToolWatch s
      else AList.delete c (runningToolWatch s))"
  by (simp add: toolCompletionStep_def)

lemma complete_watch:
  "runningToolWatch (fst (completeCurrentMessage s)) =
     (if snd (completeCurrentMessage s) = [] then runningToolWatch s else [])"
  by (simp add: completeCurrentMessage_def Let_def)

lemma handleTextPart_watch [simp]:
  "runningToolWatch (fst (handleTextPart env p d s)) = runningToolWatch s"
  by (cases rule: handleTextPart_cases[of p s env d]) simp_all

lemma handleSessionError_state [simp]: "fst (handleSessionError props s) = s"
  by (simp add: handleSessionError_def Let_def split: option.splits)

text \<open>
  A property of the watch map that the operations of the handlers keep is kept by a call.
\<close>

lemma handleToolPart_closed:
  assumes "R (runningToolWatch s)"
    and "\<And>ws. R ws \<Longrightarrow>
           R (AList.update c \<lparr> toolName = t, startedAt = now_tool env, lastUpdateAt = now_tool env,
                               lastStatusBroadcastAt = 0 \<rparr> ws)"
    and "\<And>ws. R ws \<Longrightarrow> R (touchWatch c t (now_tool env) ws)"
    and "\<And>ws. R ws \<Longrightarrow> R (AList.delete c ws)"
  shows "R (runningToolWatch (fst (handleToolPart env p c t s)))"
proof -
  let ?s1 = "fst (ensureAssistantMessage env (part_messageID p) s)"
  let ?s2 = "fst (toolStartStep env p c t ?s1)"
  let ?s3 = "fst (toolMetadataStep env p c t ?s2)"
  let ?s4 = "fst (toolCompletionStep p c t ?s3)"
  have 1: "R (runningToolWatch ?s1)"
    using assms(1) by simp
  have 2: "R (runningToolWatch ?s2)"
    using 1 assms(2,3) by (simp add: toolStartStep_watch)
  have 3: "R (runningToolWatch ?s3)"
    using 2 assms(3) by (simp add: toolMetadataStep_watch)
  have 4: "R (runningToolWatch ?s4)"
    using 3 assms(4) by (simp add: toolCompletionStep_watch)
  have "fst (handleToolPart env p c t s) = ?s3 \<or> fst (handleToolPart env p c t s) = ?s4"
    by (simp add: handleToolPart_steps Let_def split: option.splits)
  with 3 4 show ?thesis by auto
qed

lemma handlers_closed:
  assumes "R (runningToolWatch (fst (maybeBroadcastToolProgressHeartbeat (now_heartbeat env) s)))"
    and "\<And>c t ws. R ws \<Longrightarrow>
           R (AList.update c \<lparr> toolName = t, startedAt = now_tool env, lastUpdateAt = now_tool env,
                               lastStatusBroadcastAt = 0 \<rparr> ws)"
    and "\<And>c t ws. R ws \<Longrightarrow> R (touchWatch c t (now_tool env) ws)"
    and "\<And>c ws. R ws \<Longrightarrow> R (AList.delete c ws)"
    and "R []"
  shows "R (runningToolWatch (fst (process env event s)))"
proof -
  let ?h = "fst (maybeBroadcastToolProgressHeartbeat (now_heartbeat env) s)"
  have c: "R (runningToolWatch (fst (completeCurrentMessage s1)))" if "R (runningToolWatch s1)" for s1
    using that assms(5) by (simp add: complete_watch)
  have "R (runningToolWatch (fst (processTry env event s)))"
  proof (cases event)
    case (MessageUpdated props)
    have "R (runningToolWatch (fst (handleMessageUpdate env props ?h)))"
    proof (cases rule: handleMessageUpdate_cases[of env props ?h])
      case (completed info errs)
      with c[of "fst (ensureAssistantMessage env (info_id info) ?h)"] assms(1) show ?thesis
        by simp
    qed (use assms(1) in simp_all)
    with MessageUpdated show ?thesis
      by (simp add: processTry_proj Let_def)
  next
    case (MessagePartUpdated props)
    have "R (runningToolWatch (fst (handlePartUpdate env props ?h)))"
    proof (cases rule: handlePartUpdate_cases[of props env ?h])
      case (toolPart pr p c t)
      with handleToolPart_closed[of R ?h c t env p, OF assms(1) assms(2) assms(3) assms(4)]
      show ?thesis by simp
    qed (use assms(1) in simp_all)
    with MessagePartUpdated show ?thesis
      by (simp add: processTry_proj Let_def)
  next
    case SessionIdle
    with c[OF assms(1)] show ?thesis
      by (simp add: processTry_proj Let_def handleSessionIdle_def case_prod_beta)
  next
    case (SessionStatus props)
    with c[OF assms(1)] assms(1) show ?thesis
      by (simp add: processTry_proj Let_def handleSessionStatus_def case_prod_beta
          split: option.splits)
  next
    case (SessionError props)
    with assms(1) show ?thesis
      by (simp add: processTry_proj Let_def)
  qed (use assms(1) in \<open>simp_all add: processTry_proj Let_def\<close>)
  then show ?thesis by (simp add: process_proj)
qed

lemma process_closed:
  assumes "R (runningToolWatch s)"
    and "\<And>ws. R ws \<Longrightarrow> R (fst (heartbeatLoop (now_heartbeat env) ws))"
    and "\<And>c t ws. R ws \<Longrightarrow>
           R (AList.update c \<lparr> toolName = t, startedAt = now_tool env, lastUpdateAt = now_tool env,
                               lastStatusBroadcastAt = 0 \<rparr> ws)"
    and "\<And>c t ws. R ws \<Longrightarrow> R (touchWatch c t (now_tool env) ws)"
    and "\<And>c ws. R ws \<Longrightarrow> R (AList.delete c ws)"
    and "R []"
  shows "R (runningToolWatch (fst (process env event s)))"
proof (rule handlers_closed[of R env s event])
  show "R (runningToolWatch (fst (maybeBroadcastToolProgressHeartbeat (now_heartbeat env) s)))"
    using assms(1,2) by (simp add: heartbeat_watch)
qed (fact assms(3) assms(4) assms(5) assms(6))+

subsection \<open>The keys of the watch map are distinct\<close>

lemma process_distinct:
  assumes "distinct (map fst (runningToolWatch s))"
  shows "distinct (map fst (runningToolWatch (fst (process env event s))))"
  by (rule process_closed[where R = "\<lambda>ws. distinct (map fst ws)"])
     (simp_all add: assms heartbeatLoop_keys distinct_update touchWatch_keys distinct_delete)

lemma run_distinct:
  assumes "distinct (map fst (runningToolWatch s))"
  shows "distinct (map fst (runningToolWatch (fst (run calls s))))"
  using assms
proof (induction calls arbitrary: s)
  case Nil
  then show ?case by simp
next
  case (Cons c calls)
  show ?case
  proof (cases c)
    case (Process env event)
    with Cons.IH[OF process_distinct[OF Cons.prems, of env event]] show ?thesis
      by (simp add: run_Process del: run.simps)
  next
    case ResetForNewPrompt
    with Cons.IH[of "resetForNewPrompt s"] show ?thesis
      by (simp add: resetForNewPrompt_def)
  next
    case ClearCurrentAssistantMessageId
    with Cons.IH[of "clearCurrentAssistantMessageId s"] show ?thesis
      by (simp add: clearCurrentAssistantMessageId_def)
  qed
qed

lemma reachable_distinct:
  "distinct (map fst (runningToolWatch (fst (run calls initial_state))))"
  by (rule run_distinct) (simp add: initial_state_def)

subsection \<open>Status broadcasts come from the heartbeat only\<close>

lemma filter_all: "list_all P xs \<Longrightarrow> filter P xs = xs"
  by (induction xs) simp_all

lemma error_status:
  assumes "list_all isErrorBroadcast errs"
  shows "filter isStatus errs = []"
  using assms by (induction errs) (auto elim: isErrorBroadcast.elims)

lemma ensureAssistantMessage_status [simp]:
  "filter isStatus (snd (ensureAssistantMessage env m s)) = []"
  "countOf (isToolUpdateOf k) (snd (ensureAssistantMessage env m s)) = 0"
  by (simp_all add: ensureAssistantMessage_def Let_def)

lemma complete_status [simp]:
  "filter isStatus (snd (completeCurrentMessage s)) = []"
  "countOf (isToolUpdateOf k) (snd (completeCurrentMessage s)) = 0"
  by (simp_all add: completeCurrentMessage_def Let_def)

lemma toolSteps_status [simp]:
  "filter isStatus (snd (toolStartStep env p c t s)) = []"
  "filter isStatus (fst (snd (toolMetadataStep env p c t s))) = []"
  "filter isStatus (snd (toolCompletionStep p c t s)) = []"
  by (simp_all add: toolStartStep_def toolMetadataStep_def toolCompletionStep_def Let_def
      split: option.splits)

lemma handleToolPart_status:
  "filter isStatus (fst (snd (handleToolPart env p c t s))) = []"
  by (simp add: handleToolPart_steps Let_def split: option.splits)

lemma handleTextPart_status:
  "filter isStatus (fst (snd (handleTextPart env p d s))) = []"
  "countOf (isToolUpdateOf k) (fst (snd (handleTextPart env p d s))) = 0"
  by (cases rule: handleTextPart_cases[of p s env d]; auto)+

lemma handlePartUpdate_status:
  "filter isStatus (fst (snd (handlePartUpdate env props s))) = []"
  by (cases rule: handlePartUpdate_cases[of props env s])
     (simp_all add: handleToolPart_status handleTextPart_status)

lemma handleMessageUpdate_status:
  "filter isStatus (fst (snd (handleMessageUpdate env props s))) = []"
  "countOf (isToolUpdateOf k) (fst (snd (handleMessageUpdate env props s))) = 0"
  by (cases rule: handleMessageUpdate_cases[of env props s]; simp add: error_status error_counts)+

lemma handleSessionError_status:
  "filter isStatus (fst (snd (handleSessionError props s))) = []"
  "countOf (isToolUpdateOf k) (fst (snd (handleSessionError props s))) = 0"
  by (simp_all add: handleSessionError_def Let_def split: option.splits)

lemma process_status:
  "filter isStatus (fst (snd (process env event s))) =
     map (\<lambda>kw. Broadcast (Status ''running'' (heartbeatMessage (now_heartbeat env) (snd kw))))
       (filter (\<lambda>kw. heartbeatDue (now_heartbeat env) (snd kw)) (runningToolWatch s))"
proof -
  let ?h = "maybeBroadcastToolProgressHeartbeat (now_heartbeat env) s"
  have h: "filter isStatus (snd ?h) = snd ?h"
    by (rule filter_all) simp
  have "filter isStatus (fst (snd (processTry env event s))) = snd ?h"
    using h
    by (cases event)
       (simp_all add: processTry_proj Let_def handleMessageUpdate_status handlePartUpdate_status
          handleSessionError_status handleSessionIdle_def handleSessionStatus_def case_prod_beta
          split: option.splits)
  moreover have "filter isStatus (fst (snd (process env event s))) =
                 filter isStatus (fst (snd (processTry env event s)))"
    by (simp add: process_def Let_def case_prod_beta split: option.splits)
  ultimately show ?thesis by (simp add: heartbeat_out)
qed

subsection \<open>A tool update sets the time of the last update\<close>

lemma toolSteps_update_key:
  "0 < countOf (isToolUpdateOf k) (snd (toolStartStep env p c t s)) \<Longrightarrow> c = k"
  "0 < countOf (isToolUpdateOf k) (fst (snd (toolMetadataStep env p c t s))) \<Longrightarrow> c = k"
  "countOf (isToolUpdateOf k) (snd (toolCompletionStep p c t s)) = 0"
  by (simp_all add: toolStartStep_def toolMetadataStep_def toolCompletionStep_def Let_def
      split: option.splits if_splits)

lemma handleToolPart_update_count:
  "countOf (isToolUpdateOf k) (fst (snd (handleToolPart env p c t s))) =
     countOf (isToolUpdateOf k)
       (snd (toolStartStep env p c t (fst (ensureAssistantMessage env (part_messageID p) s)))) +
     countOf (isToolUpdateOf k)
       (fst (snd (toolMetadataStep env p c t
          (fst (toolStartStep env p c t (fst (ensureAssistantMessage env (part_messageID p) s)))))))"
  by (simp add: handleToolPart_steps Let_def toolSteps_update_key split: option.splits)

lemma handleToolPart_update_key:
  assumes "0 < countOf (isToolUpdateOf k) (fst (snd (handleToolPart env p c t s)))"
  shows "c = k"
  using assms toolSteps_update_key(1,2)[of k env p c t]
  by (auto simp add: handleToolPart_update_count)

lemma handleToolPart_updated:
  assumes "distinct (map fst (runningToolWatch s))"
    and "0 < countOf (isToolUpdateOf k) (fst (snd (handleToolPart env p k t s)))"
  shows "list_all (\<lambda>kw. fst kw \<noteq> k \<or> now_tool env \<le> lastUpdateAt (snd kw))
           (runningToolWatch (fst (handleToolPart env p k t s)))"
proof -
  let ?R = "list_all (\<lambda>kw. fst kw \<noteq> k \<or> now_tool env \<le> lastUpdateAt (snd kw))"
  let ?s1 = "fst (ensureAssistantMessage env (part_messageID p) s)"
  let ?r2 = "toolStartStep env p k t ?s1"
  let ?r3 = "toolMetadataStep env p k t (fst ?r2)"
  let ?s4 = "fst (toolCompletionStep p k t (fst ?r3))"
  have d1: "distinct (map fst (runningToolWatch ?s1))"
    using assms(1) by simp
  have d2: "distinct (map fst (runningToolWatch (fst ?r2)))"
    using d1 by (simp add: toolStartStep_watch distinct_update touchWatch_keys)
  have touch: "?R (touchWatch k t (now_tool env) ws)" if "distinct (map fst ws)" for ws
    using that by (rule touchWatch_all_key) simp
  have keep: "?R (touchWatch k t (now_tool env) ws)" if "?R ws" for ws
    using that by (rule touchWatch_all) auto
  have 3: "?R (runningToolWatch (fst ?r3))"
  proof (cases "snd ?r2 = []")
    case True
    with assms(2) have "fst (snd ?r3) \<noteq> []"
      by (auto simp add: handleToolPart_update_count)
    with touch[OF d2] show ?thesis
      by (simp add: toolMetadataStep_watch)
  next
    case False
    then have "?R (runningToolWatch (fst ?r2))"
      using touch[OF d1] update_all_key[OF d1, of "\<lambda>w. now_tool env \<le> lastUpdateAt w"
          "\<lparr> toolName = t, startedAt = now_tool env, lastUpdateAt = now_tool env,
             lastStatusBroadcastAt = 0 \<rparr>" k]
      by (simp add: toolStartStep_watch toolStartStep_silent split: if_splits)
    with keep show ?thesis
      by (simp add: toolMetadataStep_watch)
  qed
  then have 4: "?R (runningToolWatch ?s4)"
    by (simp add: toolCompletionStep_watch delete_all)
  have "fst (handleToolPart env p k t s) = fst ?r3 \<or> fst (handleToolPart env p k t s) = ?s4"
    by (simp add: handleToolPart_steps Let_def split: option.splits)
  with 3 4 show ?thesis by auto
qed

lemma processTry_no_update:
  assumes "\<And>props. event \<noteq> MessagePartUpdated props"
  shows "countOf (isToolUpdateOf k) (fst (snd (processTry env event s))) = 0"
proof (cases event)
  case (MessagePartUpdated props)
  with assms show ?thesis by blast
qed (simp_all add: processTry_proj Let_def handleMessageUpdate_status
       handleSessionError_status handleSessionIdle_def handleSessionStatus_def case_prod_beta
       split: option.splits)

lemma process_updated:
  assumes "distinct (map fst (runningToolWatch s))"
    and "0 < countOf (isToolUpdateOf k) (fst (snd (process env event s)))"
  shows "watchInv (\<lambda>w. now_tool env \<le> lastUpdateAt w) k (fst (process env event s))"
proof -
  let ?h = "fst (maybeBroadcastToolProgressHeartbeat (now_heartbeat env) s)"
  have d: "distinct (map fst (runningToolWatch ?h))"
    using assms(1) by (simp add: heartbeat_watch heartbeatLoop_keys)
  have c: "0 < countOf (isToolUpdateOf k) (fst (snd (processTry env event s)))"
    using assms(2) by (simp add: process_count)
  have "watchInv (\<lambda>w. now_tool env \<le> lastUpdateAt w) k (fst (processTry env event s))"
  proof (cases event)
    case (MessagePartUpdated props)
    with c have u: "0 < countOf (isToolUpdateOf k) (fst (snd (handlePartUpdate env props ?h)))"
      by (simp add: processTry_proj Let_def)
    have "watchInv (\<lambda>w. now_tool env \<le> lastUpdateAt w) k (fst (handlePartUpdate env props ?h))"
    proof (cases rule: handlePartUpdate_cases[of props env ?h])
      case (toolPart pr p c t)
      with u handleToolPart_update_key[of k env p c t ?h] have "c = k"
        by simp
      with toolPart u handleToolPart_updated[OF d, of k env p t] show ?thesis
        by (simp add: watchInv_def)
    qed (use u in \<open>simp_all add: handleTextPart_status\<close>)
    with MessagePartUpdated show ?thesis
      by (simp add: processTry_proj Let_def)
  qed (use c processTry_no_update[of event k env s] in simp_all)
  then show ?thesis by (simp add: process_proj)
qed

subsection \<open>What later calls keep\<close>

lemma process_watchInv:
  assumes "watchInv Q k s"
    and "\<And>w. Q w \<Longrightarrow> Q (w\<lparr> lastStatusBroadcastAt := now_heartbeat env \<rparr>)"
    and "\<And>w n. Q (w\<lparr> lastUpdateAt := now_tool env, toolName := n \<rparr>)"
    and "\<And>n. Q \<lparr> toolName = n, startedAt = now_tool env, lastUpdateAt = now_tool env,
                  lastStatusBroadcastAt = 0 \<rparr>"
  shows "watchInv Q k (fst (process env event s))"
  unfolding watchInv_def
proof (rule process_closed[where R = "list_all (\<lambda>kw. fst kw \<noteq> k \<or> Q (snd kw))"])
  show "list_all (\<lambda>kw. fst kw \<noteq> k \<or> Q (snd kw)) (runningToolWatch s)"
    using assms(1) by (simp add: watchInv_def)
next
  fix ws :: "(string \<times> watch) list"
  assume "list_all (\<lambda>kw. fst kw \<noteq> k \<or> Q (snd kw)) ws"
  then show "list_all (\<lambda>kw. fst kw \<noteq> k \<or> Q (snd kw)) (fst (heartbeatLoop (now_heartbeat env) ws))"
    by (rule heartbeatLoop_all) (use assms(2) in auto)
next
  fix c t and ws :: "(string \<times> watch) list"
  assume "list_all (\<lambda>kw. fst kw \<noteq> k \<or> Q (snd kw)) ws"
  then show "list_all (\<lambda>kw. fst kw \<noteq> k \<or> Q (snd kw))
               (AList.update c \<lparr> toolName = t, startedAt = now_tool env, lastUpdateAt = now_tool env,
                                 lastStatusBroadcastAt = 0 \<rparr> ws)"
    by (rule update_all) (use assms(4) in simp)
next
  fix c t and ws :: "(string \<times> watch) list"
  assume "list_all (\<lambda>kw. fst kw \<noteq> k \<or> Q (snd kw)) ws"
  then show "list_all (\<lambda>kw. fst kw \<noteq> k \<or> Q (snd kw)) (touchWatch c t (now_tool env) ws)"
    by (rule touchWatch_all) (use assms(3) in auto)
next
  fix c and ws :: "(string \<times> watch) list"
  assume "list_all (\<lambda>kw. fst kw \<noteq> k \<or> Q (snd kw)) ws"
  then show "list_all (\<lambda>kw. fst kw \<noteq> k \<or> Q (snd kw)) (AList.delete c ws)"
    by (rule delete_all)
qed simp

lemma run_watchInv:
  assumes "watchInv Q k s" and "clockFrom t' calls" and "t \<le> t'"
    and "\<And>w now. t \<le> now \<Longrightarrow> Q w \<Longrightarrow> Q (w\<lparr> lastStatusBroadcastAt := now \<rparr>)"
    and "\<And>w now n. t \<le> now \<Longrightarrow> Q (w\<lparr> lastUpdateAt := now, toolName := n \<rparr>)"
    and "\<And>now n. t \<le> now \<Longrightarrow>
           Q \<lparr> toolName = n, startedAt = now, lastUpdateAt = now, lastStatusBroadcastAt = 0 \<rparr>"
  shows "watchInv Q k (fst (run calls s))"
  using assms(1,2,3)
proof (induction calls arbitrary: s t')
  case Nil
  then show ?case by simp
next
  case (Cons c calls)
  show ?case
  proof (cases c)
    case (Process env event)
    with Cons.prems have t: "t \<le> now_heartbeat env" "t \<le> now_tool env"
      and cl: "clockFrom (now_tool env) calls"
      by simp_all
    have "watchInv Q k (fst (process env event s))"
      using Cons.prems(1) assms(4)[OF t(1)] assms(5)[OF t(2)] assms(6)[OF t(2)]
      by (rule process_watchInv)
    from Cons.IH[OF this cl t(2)] Process show ?thesis
      by (simp add: run_Process del: run.simps)
  next
    case ResetForNewPrompt
    have "watchInv Q k (resetForNewPrompt s)"
      by (simp add: watchInv_def resetForNewPrompt_def)
    from Cons.IH[OF this, of t'] Cons.prems ResetForNewPrompt show ?thesis
      by simp
  next
    case ClearCurrentAssistantMessageId
    have "watchInv Q k (clearCurrentAssistantMessageId s)"
      using Cons.prems(1) by (simp add: watchInv_def clearCurrentAssistantMessageId_def)
    from Cons.IH[OF this, of t'] Cons.prems ClearCurrentAssistantMessageId show ?thesis
      by simp
  qed
qed

lemma clockFrom_append:
  "clockFrom t (calls @ [Process env event]) \<Longrightarrow>
     clockFrom t calls \<and> (\<exists>t'. t \<le> t' \<and> t' \<le> now_heartbeat env)"
proof (induction calls arbitrary: t)
  case Nil
  then show ?case by auto
next
  case (Cons c calls)
  show ?case
  proof (cases c)
    case (Process env1 event1)
    with Cons.prems Cons.IH[of "now_tool env1"] show ?thesis
      by force
  qed (use Cons in auto)
qed

lemma clockFrom_last:
  "clockFrom t (calls @ [Process env event]) \<Longrightarrow> t \<le> now_heartbeat env"
  using clockFrom_append by force

lemma heartbeatTools_entry:
  "k \<in> set (heartbeatTools now s) \<longleftrightarrow>
     (\<exists>w. (k, w) \<in> set (runningToolWatch s) \<and> heartbeatDue now w)"
  by (force simp add: heartbeatTools_def)

subsection \<open>The heartbeat and the time since the last update or heartbeat\<close>

lemma watchInv_entry:
  "watchInv Q k s \<Longrightarrow> (k, w) \<in> set (runningToolWatch s) \<Longrightarrow> Q w"
  by (auto simp add: watchInv_def list_all_iff)

lemma heartbeat_after_update:
  assumes "distinct (map fst (runningToolWatch s))"
    and "0 < countOf (isToolUpdateOf k) (fst (snd (process env1 event1 s)))"
    and "clockFrom (now_tool env1) (calls @ [Process env2 event2])"
    and "k \<in> set (heartbeatTools (now_heartbeat env2) (fst (run (Process env1 event1 # calls) s)))"
  shows "toolProgressHeartbeatMs \<le> now_heartbeat env2 - now_tool env1"
proof -
  let ?Q = "\<lambda>w. now_tool env1 \<le> lastUpdateAt w"
  let ?s2 = "fst (run calls (fst (process env1 event1 s)))"
  have "watchInv ?Q k (fst (process env1 event1 s))"
    using assms(1,2) by (rule process_updated)
  moreover have "clockFrom (now_tool env1) calls"
    using clockFrom_append[OF assms(3)] by simp
  ultimately have inv: "watchInv ?Q k ?s2"
    by (rule run_watchInv[where t = "now_tool env1"]) simp_all
  from assms(4) obtain w where w: "(k, w) \<in> set (runningToolWatch ?s2)"
    "heartbeatDue (now_heartbeat env2) w"
    by (auto simp add: heartbeatTools_entry run_Process simp del: run.simps)
  from watchInv_entry[OF inv w(1)] w(2) show ?thesis
    by (simp add: heartbeatDue_def)
qed

lemma heartbeat_after_heartbeat:
  assumes "distinct (map fst (runningToolWatch s))"
    and "k \<in> set (heartbeatTools (now_heartbeat env1) s)"
    and "clockFrom (now_heartbeat env1) (Process env1 event1 # calls @ [Process env2 event2])"
    and "k \<in> set (heartbeatTools (now_heartbeat env2) (fst (run (Process env1 event1 # calls) s)))"
  shows "toolProgressHeartbeatMs \<le> now_heartbeat env2 - now_heartbeat env1"
proof -
  let ?t = "now_heartbeat env1"
  let ?Q = "\<lambda>w. ?t \<le> lastUpdateAt w \<or> ?t \<le> lastStatusBroadcastAt w"
  let ?R = "list_all (\<lambda>kw. fst kw \<noteq> k \<or> ?Q (snd kw))"
  let ?s1 = "fst (process env1 event1 s)"
  let ?s2 = "fst (run calls ?s1)"
  from assms(3) have t: "?t \<le> now_tool env1"
    and cl: "clockFrom (now_tool env1) (calls @ [Process env2 event2])"
    by simp_all
  from assms(2) obtain w0 where w0: "(k, w0) \<in> set (runningToolWatch s)" "heartbeatDue ?t w0"
    by (auto simp add: heartbeatTools_entry)
  have "list_all (\<lambda>kw. fst kw \<noteq> k \<or> lastStatusBroadcastAt (snd kw) = ?t)
          (fst (heartbeatLoop ?t (runningToolWatch s)))"
    using assms(1) w0 by (rule heartbeatLoop_due)
  then have h: "?R (runningToolWatch (fst (maybeBroadcastToolProgressHeartbeat ?t s)))"
    by (auto simp add: heartbeat_watch list_all_iff)
  have "?R (runningToolWatch ?s1)"
  proof (rule handlers_closed[where R = ?R, OF h])
    fix c n and ws :: "(string \<times> watch) list"
    assume "?R ws"
    then show "?R (AList.update c \<lparr> toolName = n, startedAt = now_tool env1,
                     lastUpdateAt = now_tool env1, lastStatusBroadcastAt = 0 \<rparr> ws)"
      by (rule update_all) (use t in simp)
  next
    fix c n and ws :: "(string \<times> watch) list"
    assume "?R ws"
    then show "?R (touchWatch c n (now_tool env1) ws)"
      by (rule touchWatch_all) (use t in auto)
  next
    fix c and ws :: "(string \<times> watch) list"
    assume "?R ws"
    then show "?R (AList.delete c ws)"
      by (rule delete_all)
  qed simp
  then have "watchInv ?Q k ?s1"
    by (simp add: watchInv_def)
  moreover have "clockFrom (now_tool env1) calls"
    using clockFrom_append[OF cl] by simp
  ultimately have inv: "watchInv ?Q k ?s2"
    using t by (rule run_watchInv[where t = ?t]) auto
  from assms(4) obtain w where w: "(k, w) \<in> set (runningToolWatch ?s2)"
    "heartbeatDue (now_heartbeat env2) w"
    by (auto simp add: heartbeatTools_entry run_Process simp del: run.simps)
  from watchInv_entry[OF inv w(1)] w(2) show ?thesis
    by (auto simp add: heartbeatDue_def)
qed

lemma heartbeatTools_distinct:
  "distinct (map fst (runningToolWatch s)) \<Longrightarrow> distinct (heartbeatTools now s)"
  by (simp add: heartbeatTools_def distinct_map_filter)

text \<open>
  C9. The \<open>status\<close> broadcasts of a call are those of the tool-progress heartbeat, one
  \<open>running\<close> status for each entry of the watch map that is due at the time of the call, in
  the order of the map: an entry is due when neither its last update nor its last heartbeat
  is less than \<open>toolProgressHeartbeatMs\<close> (15000 ms) ago, and \<open>heartbeatTools\<close> lists the
  tool calls of the due entries. Over the calls made on a processor since its creation, with a
  clock that does not run backwards:
  no tool call gets two heartbeats in one call; a tool call for which a \<open>tool_start\<close> or a
  \<open>tool_metadata\<close> was broadcast gets a heartbeat in a later call only if at least 15000 ms
  have passed since the handler read the clock for that update; and a tool call that got a
  heartbeat gets another one in a later call only if at least 15000 ms have passed since the
  previous one.
\<close>

theorem heartbeat_window:
  "filter isStatus (fst (snd (process env event s))) =
     map (\<lambda>kw. Broadcast (Status ''running'' (heartbeatMessage (now_heartbeat env) (snd kw))))
       (filter (\<lambda>kw. heartbeatDue (now_heartbeat env) (snd kw)) (runningToolWatch s)) \<and>
   distinct (heartbeatTools now (fst (run history initial_state))) \<and>
   (0 < countOf (isToolUpdateOf k)
          (fst (snd (process env1 event1 (fst (run history initial_state))))) \<and>
    clockFrom (now_tool env1) (calls @ [Process env2 event2]) \<and>
    k \<in> set (heartbeatTools (now_heartbeat env2)
               (fst (run (history @ Process env1 event1 # calls) initial_state))) \<longrightarrow>
    toolProgressHeartbeatMs \<le> now_heartbeat env2 - now_tool env1) \<and>
   (k \<in> set (heartbeatTools (now_heartbeat env1) (fst (run history initial_state))) \<and>
    clockFrom (now_heartbeat env1) (Process env1 event1 # calls @ [Process env2 event2]) \<and>
    k \<in> set (heartbeatTools (now_heartbeat env2)
               (fst (run (history @ Process env1 event1 # calls) initial_state))) \<longrightarrow>
    toolProgressHeartbeatMs \<le> now_heartbeat env2 - now_heartbeat env1)"
proof (intro conjI impI)
  show "filter isStatus (fst (snd (process env event s))) =
     map (\<lambda>kw. Broadcast (Status ''running'' (heartbeatMessage (now_heartbeat env) (snd kw))))
       (filter (\<lambda>kw. heartbeatDue (now_heartbeat env) (snd kw)) (runningToolWatch s))"
    by (rule process_status)
next
  show "distinct (heartbeatTools now (fst (run history initial_state)))"
    by (rule heartbeatTools_distinct) (rule reachable_distinct)
next
  assume a: "0 < countOf (isToolUpdateOf k)
          (fst (snd (process env1 event1 (fst (run history initial_state))))) \<and>
    clockFrom (now_tool env1) (calls @ [Process env2 event2]) \<and>
    k \<in> set (heartbeatTools (now_heartbeat env2)
               (fst (run (history @ Process env1 event1 # calls) initial_state)))"
  then have "k \<in> set (heartbeatTools (now_heartbeat env2)
               (fst (run (Process env1 event1 # calls) (fst (run history initial_state)))))"
    by (simp add: run_append del: run.simps)
  with a heartbeat_after_update[OF reachable_distinct, of k env1 event1 history calls env2 event2]
  show "toolProgressHeartbeatMs \<le> now_heartbeat env2 - now_tool env1"
    by blast
next
  assume a: "k \<in> set (heartbeatTools (now_heartbeat env1) (fst (run history initial_state))) \<and>
    clockFrom (now_heartbeat env1) (Process env1 event1 # calls @ [Process env2 event2]) \<and>
    k \<in> set (heartbeatTools (now_heartbeat env2)
               (fst (run (history @ Process env1 event1 # calls) initial_state)))"
  then have "k \<in> set (heartbeatTools (now_heartbeat env2)
               (fst (run (Process env1 event1 # calls) (fst (run history initial_state)))))"
    by (simp add: run_append del: run.simps)
  with a heartbeat_after_heartbeat[OF reachable_distinct, of k env1 history event1 calls env2 event2]
  show "toolProgressHeartbeatMs \<le> now_heartbeat env2 - now_heartbeat env1"
    by blast
qed

theorem heartbeat_window_witness:
  "filter isStatus
     (snd (run (exampleTurnStart @ [Process (envAt 15000) ServerHeartbeat]) initial_state)) = [] \<and>
   filter isStatus
     (snd (run (exampleTurnStart @ [Process (envAt 15001) ServerHeartbeat]) initial_state)) =
     [Broadcast (Status ''running'' ''Working on bash (15s elapsed, no update for 15s)'')] \<and>
   filter isStatus
     (snd (run (exampleTurnStart @
                [Process (envAt 15001) ServerHeartbeat, Process (envAt 30000) ServerHeartbeat])
             initial_state)) =
     [Broadcast (Status ''running'' ''Working on bash (15s elapsed, no update for 15s)'')] \<and>
   heartbeatTools 15001 (fst (run exampleTurnStart initial_state)) = [''call_1''] \<and>
   heartbeatTools 30001
     (fst (run (exampleTurnStart @ [Process (envAt 15001) ServerHeartbeat]) initial_state)) =
     [''call_1''] \<and>
   toolProgressHeartbeatMs \<le> now_heartbeat (envAt 15001) - now_tool (envAt 1) \<and>
   toolProgressHeartbeatMs \<le> now_heartbeat (envAt 30001) - now_heartbeat (envAt 15001)"
proof -
  let ?start = "[Process (envAt 0) (MessageUpdated (Some (Some (exampleInfo ''msg_2'' ''assistant''))))]"
  have t: "heartbeatTools 15001 (fst (run exampleTurnStart initial_state)) = [''call_1'']"
    "heartbeatTools 30001
       (fst (run (exampleTurnStart @ [Process (envAt 15001) ServerHeartbeat]) initial_state)) =
     [''call_1'']"
    by (simp_all add: exampleTurnStart_def heartbeatTools_def heartbeatDue_def eval_defs)
  have u: "0 < countOf (isToolUpdateOf ''call_1'')
             (fst (snd (process (envAt 1) (partEvent (exampleToolPart ''running'') None)
                          (fst (run ?start initial_state)))))"
    by (simp add: eval_defs)
  have c: "clockFrom (now_tool (envAt 1)) ([] @ [Process (envAt 15001) ServerHeartbeat])"
    "clockFrom (now_heartbeat (envAt 15001))
       (Process (envAt 15001) ServerHeartbeat # [] @ [Process (envAt 30001) ServerHeartbeat])"
    by (simp_all add: envAt_def)
  have s: "filter isStatus
     (snd (run (exampleTurnStart @ [Process (envAt 15000) ServerHeartbeat]) initial_state)) = []"
    "filter isStatus
     (snd (run (exampleTurnStart @ [Process (envAt 15001) ServerHeartbeat]) initial_state)) =
     [Broadcast (Status ''running'' ''Working on bash (15s elapsed, no update for 15s)'')]"
    "filter isStatus
     (snd (run (exampleTurnStart @
                [Process (envAt 15001) ServerHeartbeat, Process (envAt 30000) ServerHeartbeat])
             initial_state)) =
     [Broadcast (Status ''running'' ''Working on bash (15s elapsed, no update for 15s)'')]"
    by (simp_all add: exampleTurnStart_def eval_defs show_int_def show_nat.simps digit_char_def)
  have m: "''call_1'' \<in> set (heartbeatTools (now_heartbeat (envAt 15001))
               (fst (run (?start @ Process (envAt 1) (partEvent (exampleToolPart ''running'') None) # [])
                      initial_state)))"
    "''call_1'' \<in> set (heartbeatTools (now_heartbeat (envAt 15001))
               (fst (run exampleTurnStart initial_state)))"
    "''call_1'' \<in> set (heartbeatTools (now_heartbeat (envAt 30001))
               (fst (run (exampleTurnStart @ Process (envAt 15001) ServerHeartbeat # [])
                      initial_state)))"
    by (simp_all add: exampleTurnStart_def heartbeatTools_def heartbeatDue_def eval_defs)
  have 1: "toolProgressHeartbeatMs \<le> now_heartbeat (envAt 15001) - now_tool (envAt 1)"
    using heartbeat_window[of "envAt 0" ServerHeartbeat initial_state 0 "?start" "''call_1''"
        "envAt 1" "partEvent (exampleToolPart ''running'') None" "[]" "envAt 15001" ServerHeartbeat]
      u c(1) m(1)
    by blast
  have 2: "toolProgressHeartbeatMs \<le> now_heartbeat (envAt 30001) - now_heartbeat (envAt 15001)"
    using heartbeat_window[of "envAt 0" ServerHeartbeat initial_state 0 exampleTurnStart "''call_1''"
        "envAt 15001" ServerHeartbeat "[]" "envAt 30001" ServerHeartbeat]
      c(2) m(2,3)
    by blast
  from s t 1 2 show ?thesis by blast
qed

end
